theory Spec2Isabelle
  imports
    Main
    "HOL-Library.Char_ord"
    "HOL-Library.List_Lexorder"
    "HOL-Library.Product_Lexorder"
    "HOL-Library.Multiset"
begin

section \<open>django-squash: the squash\_migrations command\<close>

text \<open>
  A shallow embedding of \<^verbatim>\<open>django_squash/management/commands/squash_migrations.py\<close>.

  Strings are \<^typ>\<open>string\<close>; a character stands for one code point below 256. Python
  compares strings by code point and tuples lexicographically, which is the order that
  \<^verbatim>\<open>Char_ord\<close>, \<^verbatim>\<open>List_Lexorder\<close> and \<^verbatim>\<open>Product_Lexorder\<close> put on
  \<^typ>\<open>string \<times> string\<close>.

  Exceptions are values of \<open>error\<close>; a function that can raise returns \<open>error + 'a\<close>.
\<close>

datatype error =
    ValueError
  | KeyError
  | IndexError
  | AttributeError
  | OSError
  | CommandError string
  | SystemExit nat

type_synonym identity = "string \<times> string"

subsection \<open>Operations\<close>

text \<open>
  The operation classes the command tells apart. \<open>RunPython\<close> carries the identity of the
  operation object: its \<^verbatim>\<open>code\<close> attribute is assigned by \<^verbatim>\<open>add_non_elidables\<close> and
  therefore lives in the store below, indexed by that identity. \<^verbatim>\<open>reverse_code\<close> is the
  address of a function object, or \<open>None\<close>. Every other attribute is only read by the command
  and is part of the value. \<open>OtherOp\<close> is any operation class that is neither
  \<^verbatim>\<open>RunSQL\<close>, \<^verbatim>\<open>RunPython\<close> nor \<^verbatim>\<open>SeparateDatabaseAndState\<close>. The last field of each
  constructor is the \<^verbatim>\<open>elidable\<close> attribute.
\<close>

datatype operation =
    RunPython nat "nat option" bool
  | RunSQL string "string option" bool
  | SeparateDatabaseAndState (database_operations: "operation list")
                             (state_operations: "operation list") bool
  | OtherOp string bool

fun elidable :: "operation \<Rightarrow> bool" where
  "elidable (RunPython oid rc e) = e"
| "elidable (RunSQL s rs e) = e"
| "elidable (SeparateDatabaseAndState d s e) = e"
| "elidable (OtherOp n e) = e"

text \<open>\<^verbatim>\<open>isinstance(operation, RunSQL) or isinstance(operation, RunPython)\<close>\<close>

fun is_custom :: "operation \<Rightarrow> bool" where
  "is_custom (RunPython oid rc e) = True"
| "is_custom (RunSQL s rs e) = True"
| "is_custom (SeparateDatabaseAndState d s e) = False"
| "is_custom (OtherOp n e) = False"

text \<open>
  A generator object is what it has still to yield. Going through it, as a \<^verbatim>\<open>for\<close>
  loop, \<^verbatim>\<open>list(...)\<close> or \<^verbatim>\<open>yield from\<close> does, gives these items and leaves the
  generator exhausted: \<open>traverse\<close> returns both.
\<close>

datatype 'a generator = Generator (pending: "'a list")

definition traverse :: "'a generator \<Rightarrow> 'a list \<times> 'a generator" where
  "traverse g = (pending g, Generator [])"

text \<open>
  \<^verbatim>\<open>all_custom_operations\<close> returns a generator. What the generator reads of the
  operations while it runs, their class, \<^verbatim>\<open>elidable\<close> and the two lists of a
  \<open>SeparateDatabaseAndState\<close>, is changed by nothing in this file, so what it will yield is
  fixed when it is made. \<^verbatim>\<open>yield from\<close> goes through the generator of the nested call;
  the rest of the loop is the generator of the remaining operations.
\<close>

fun all_custom_operations :: "operation list \<Rightarrow> operation generator" where
  "all_custom_operations [] = Generator []"
| "all_custom_operations (operation # rest) =
     Generator
       ((if elidable operation then []
         else (case operation of
                 RunSQL s rs e \<Rightarrow> [operation]
               | RunPython oid rc e \<Rightarrow> [operation]
               | SeparateDatabaseAndState d s e \<Rightarrow>
                   fst (traverse (all_custom_operations s)) @
                   fst (traverse (all_custom_operations d))
               | OtherOp n e \<Rightarrow> []))
        @ pending (all_custom_operations rest))"

text \<open>The number of operation objects in a list of operations, nested ones included.\<close>

fun count_operations :: "operation list \<Rightarrow> nat" where
  "count_operations [] = 0"
| "count_operations (SeparateDatabaseAndState d s e # rest) =
     Suc (count_operations d + count_operations s + count_operations rest)"
| "count_operations (operation # rest) = Suc (count_operations rest)"

subsection \<open>Function objects and the store\<close>

text \<open>
  A Python function object, with the attributes \<^verbatim>\<open>copy_func\<close> reads. Code objects, default
  tuples and closures are opaque and stand by their identity. Of the globals dictionary only
  the \<^verbatim>\<open>__name__\<close> entry is kept: \<^verbatim>\<open>types.FunctionType\<close> initialises
  \<^verbatim>\<open>__module__\<close> of the function it builds from it.
\<close>

record func =
  fn_code :: nat
  fn_globals_name :: "string option"
  fn_name :: string
  fn_defaults :: "nat option"
  fn_closure :: "nat option"
  fn_module :: "string option"

text \<open>\<^verbatim>\<open>name or f.__name__\<close>: \<open>None\<close> and the empty string are false.\<close>

definition copy_func :: "func \<Rightarrow> string option \<Rightarrow> func" where
  "copy_func f name =
     \<lparr> fn_code = fn_code f,
       fn_globals_name = fn_globals_name f,
       fn_name = (case name of None \<Rightarrow> fn_name f
                  | Some n \<Rightarrow> if n = [] then fn_name f else n),
       fn_defaults = fn_defaults f,
       fn_closure = fn_closure f,
       fn_module = fn_globals_name f \<rparr>"

text \<open>
  The objects the command mutates and shares. \<open>funcs\<close> holds the function objects by
  address; the addresses below \<open>next_func\<close> are the allocated ones, and a new function
  object takes the address \<open>next_func\<close>. \<open>op_code\<close> gives, for the identity of a
  \<open>RunPython\<close> operation object, the address its \<^verbatim>\<open>code\<close> attribute holds. An operation
  object that is in two lists is the same identity in both.
\<close>

record store =
  funcs :: "nat \<Rightarrow> func"
  next_func :: nat
  op_code :: "nat \<Rightarrow> nat"

subsection \<open>Records, the loader and the changes\<close>

text \<open>
  A new migration as the autodetector hands it over. The command never looks inside a
  dependency while squashing, so their type \<open>'d\<close> is left open there; the writer reads a
  dependency through indexing. \<^verbatim>\<open>extra_imports\<close> is an attribute that exists only once
  \<^verbatim>\<open>add_non_elidables\<close> has set it.
\<close>

record 'd migration =
  app_label :: string
  name :: string
  operations :: "operation list"
  dependencies :: "'d list"
  replaces :: "identity list"
  initial :: bool
  extra_imports :: "string list option"

text \<open>
  The top-level statements of a module as \<^verbatim>\<open>ast.parse\<close> returns them: an
  \<^verbatim>\<open>ast.Import\<close> with the names of its aliases, an \<^verbatim>\<open>ast.ImportFrom\<close> with its
  \<^verbatim>\<open>module\<close> (\<open>None\<close> for \<^verbatim>\<open>from . import x\<close>) and the names of its aliases, or
  anything else.
\<close>

datatype ast_node =
    Import "string list"
  | ImportFrom "string option" "string list"
  | OtherStmt

text \<open>
  A migration loaded from disk, an entry of \<^verbatim>\<open>loader.disk_migrations\<close>: its operations
  and the parsed source of the module that defines it, \<open>None\<close> when
  \<^verbatim>\<open>inspect.getsource\<close> finds no source for the module and raises \<^verbatim>\<open>OSError\<close>.
\<close>

record loaded_migration =
  lm_operations :: "operation list"
  lm_module :: "ast_node list option"

text \<open>
  The loader: the keys of \<^verbatim>\<open>loader.graph.node_map\<close> in the order the dictionary lists
  them, and \<^verbatim>\<open>loader.disk_migrations\<close>.
\<close>

record loader =
  node_map :: "identity list"
  disk_migrations :: "identity \<rightharpoonup> loaded_migration"

text \<open>
  \<^verbatim>\<open>changes\<close>: a dictionary from app label to the list of its new migrations, as the list
  of its items in the dictionary's order.
\<close>

type_synonym 'd changes = "(string \<times> 'd migration list) list"

subsection \<open>Strings\<close>

text \<open>Python's \<^verbatim>\<open>str.isspace\<close> and \<^verbatim>\<open>str.isdigit\<close> on code points below 256.\<close>

definition py_isspace :: "char \<Rightarrow> bool" where
  "py_isspace c =
     (let n = (of_char c :: nat)
      in (9 \<le> n \<and> n \<le> 13) \<or> (28 \<le> n \<and> n \<le> 32) \<or> n = 133 \<or> n = 160)"

definition py_isdigit :: "char \<Rightarrow> bool" where
  "py_isdigit c = (let n = (of_char c :: nat) in 48 \<le> n \<and> n \<le> 57)"

definition digit_value :: "char \<Rightarrow> nat" where
  "digit_value c = of_char c - 48"

definition digit_char :: "nat \<Rightarrow> char" where
  "digit_char d = char_of (48 + d)"

text \<open>\<^verbatim>\<open>s.strip()\<close>\<close>

definition strip :: "string \<Rightarrow> string" where
  "strip s = rev (dropWhile py_isspace (rev (dropWhile py_isspace s)))"

text \<open>\<^verbatim>\<open>sep.join(parts)\<close>\<close>

fun join :: "string \<Rightarrow> string list \<Rightarrow> string" where
  "join sep [] = []"
| "join sep [x] = x"
| "join sep (x # y # rest) = x @ sep @ join sep (y # rest)"

text \<open>\<^verbatim>\<open>s.startswith(p)\<close> and \<^verbatim>\<open>p in s\<close>\<close>

definition startswith :: "string \<Rightarrow> string \<Rightarrow> bool" where
  "startswith s p = (take (length p) s = p)"

fun contains :: "string \<Rightarrow> string \<Rightarrow> bool" where
  "contains [] p = (p = [])"
| "contains (c # cs) p = (startswith (c # cs) p \<or> contains cs p)"

text \<open>
  \<^verbatim>\<open>int(s)\<close> for a string: surrounding white space is dropped, one sign is allowed, and
  the rest is decimal digits, where a single underscore may stand between two digits.
  \<open>None\<close> is Python's \<^verbatim>\<open>ValueError\<close>. The white space \<^verbatim>\<open>int\<close> drops is not that of
  \<^verbatim>\<open>str.isspace\<close>: below 128 it is only tab to carriage return and the space, so the
  separators U+001C to U+001F are not dropped. \<open>int_digits acc prev s\<close> reads the digits,
  \<open>prev\<close> telling whether the character before was a digit.
\<close>

definition int_isspace :: "char \<Rightarrow> bool" where
  "int_isspace c =
     (let n = (of_char c :: nat)
      in (9 \<le> n \<and> n \<le> 13) \<or> n = 32 \<or> n = 133 \<or> n = 160)"

fun int_digits :: "nat \<Rightarrow> bool \<Rightarrow> string \<Rightarrow> nat option" where
  "int_digits acc prev [] = (if prev then Some acc else None)"
| "int_digits acc prev (c # cs) =
     (if py_isdigit c then int_digits (acc * 10 + digit_value c) True cs
      else if c = CHR ''_'' \<and> prev then int_digits acc False cs
      else None)"

definition py_int :: "string \<Rightarrow> int option" where
  "py_int s =
     (case rev (dropWhile int_isspace (rev (dropWhile int_isspace s))) of
        [] \<Rightarrow> None
      | c # cs \<Rightarrow>
          if c = CHR ''-'' then map_option (\<lambda>n. - int n) (int_digits 0 False cs)
          else if c = CHR ''+'' then map_option int (int_digits 0 False cs)
          else map_option int (int_digits 0 False (c # cs)))"

text \<open>The decimal digits of a natural number, and \<^verbatim>\<open>"%04i" % n\<close>.\<close>

fun nat_digits :: "nat \<Rightarrow> string" where
  "nat_digits n =
     (if n < 10 then [digit_char n] else nat_digits (n div 10) @ [digit_char (n mod 10)])"

definition zfill :: "nat \<Rightarrow> string \<Rightarrow> string" where
  "zfill w s = replicate (w - length s) (CHR ''0'') @ s"

definition format_04i :: "int \<Rightarrow> string" where
  "format_04i n =
     (if n < 0 then CHR ''-'' # zfill 3 (nat_digits (nat (- n)))
      else zfill 4 (nat_digits (nat n)))"

subsection \<open>\<^verbatim>\<open>get_imports\<close>\<close>

text \<open>
  This generator is consumed whole by \<^verbatim>\<open>imports.extend\<close>, once, so it is the list of
  what it yields, or the exception it raises on the way. \<open>child_imports\<close> is the loop over
  the statements of the module: \<^verbatim>\<open>node.module.split('.')\<close> raises
  \<^verbatim>\<open>AttributeError\<close> when \<^verbatim>\<open>node.module\<close> is \<open>None\<close>. \<open>get_imports\<close> comes to the
  loop only when \<^verbatim>\<open>inspect.getsource(module)\<close> has found the source.
\<close>

fun child_imports :: "ast_node list \<Rightarrow> error + string list" where
  "child_imports [] = Inr []"
| "child_imports (Import names # rest) =
     (case child_imports rest of
        Inl e \<Rightarrow> Inl e
      | Inr others \<Rightarrow> Inr (map (\<lambda>n. ''import '' @ n) names @ others))"
| "child_imports (ImportFrom None names # rest) = Inl AttributeError"
| "child_imports (ImportFrom (Some m) names # rest) =
     (case child_imports rest of
        Inl e \<Rightarrow> Inl e
      | Inr others \<Rightarrow>
          if \<not> contains m ''__future__''
          then Inr ((''from '' @ m @ '' import '' @ join '', '' names) # others)
          else Inr others)"
| "child_imports (OtherStmt # rest) = child_imports rest"

definition get_imports :: "ast_node list option \<Rightarrow> error + string list" where
  "get_imports module =
     (case module of
        None \<Rightarrow> Inl OSError
      | Some nodes \<Rightarrow> child_imports nodes)"

subsection \<open>\<^verbatim>\<open>SquashMigrationAutodetector\<close>\<close>

text \<open>
  \<^verbatim>\<open>rename_migrations\<close>. \<open>current_counters_by_app\<close> is the first loop: a
  \<^verbatim>\<open>defaultdict(int)\<close> is a function that is 0 where nothing was stored, and
  \<^verbatim>\<open>int(migration[:4])\<close> can raise \<^verbatim>\<open>ValueError\<close>.
\<close>

fun current_counters_by_app ::
  "identity list \<Rightarrow> (string \<Rightarrow> int) \<Rightarrow> error + (string \<Rightarrow> int)" where
  "current_counters_by_app [] counters = Inr counters"
| "current_counters_by_app ((app, migration) # rest) counters =
     (case py_int (take 4 migration) of
        None \<Rightarrow> Inl ValueError
      | Some n \<Rightarrow> current_counters_by_app rest (counters(app := max n (counters app))))"

text \<open>\<^verbatim>\<open>migration_name or 'squashed'\<close>\<close>

definition name_or_squashed :: "string option \<Rightarrow> string" where
  "name_or_squashed migration_name =
     (case migration_name of
        None \<Rightarrow> ''squashed''
      | Some n \<Rightarrow> if n = [] then ''squashed'' else n)"

definition rename_migrations ::
  "identity list \<Rightarrow> 'd changes \<Rightarrow> string option \<Rightarrow> error + 'd changes" where
  "rename_migrations graph changes migration_name =
     (case current_counters_by_app graph (\<lambda>app. 0) of
        Inl e \<Rightarrow> Inl e
      | Inr counters \<Rightarrow>
          Inr (map (\<lambda>(app, migrations).
                 (app, map (\<lambda>migration.
                         migration\<lparr>name :=
                           format_04i (counters app + 1) @ ''_'' @
                           name_or_squashed migration_name\<rparr>) migrations))
               changes))"

text \<open>
  \<^verbatim>\<open>replace_current_migrations\<close>. \<open>migrations_by_app\<close> is the first loop, on a
  \<^verbatim>\<open>defaultdict(list)\<close>.
\<close>

fun migrations_by_app ::
  "identity list \<Rightarrow> (string \<Rightarrow> identity list) \<Rightarrow> (string \<Rightarrow> identity list)" where
  "migrations_by_app [] by_app = by_app"
| "migrations_by_app ((app, migration) # rest) by_app =
     migrations_by_app rest (by_app(app := by_app app @ [(app, migration)]))"

definition replace_current_migrations :: "identity list \<Rightarrow> 'd changes \<Rightarrow> 'd changes" where
  "replace_current_migrations graph changes =
     (let by_app = migrations_by_app graph (\<lambda>app. [])
      in map (\<lambda>(app, migrations).
                (app, map (\<lambda>migration. migration\<lparr>replaces := sort (by_app app)\<rparr>) migrations))
             changes)"

text \<open>
  \<^verbatim>\<open>add_non_elidables\<close>. \<open>replacing_migrations_by_app\<close> is the dictionary comprehension:
  one list of loaded migrations for each item of \<open>changes\<close>, in the same order;
  \<^verbatim>\<open>loader.disk_migrations[r]\<close> raises \<^verbatim>\<open>KeyError\<close> for a missing key.
\<close>

fun lookup_all :: "(identity \<rightharpoonup> loaded_migration) \<Rightarrow> identity list \<Rightarrow>
    error + loaded_migration list" where
  "lookup_all disk [] = Inr []"
| "lookup_all disk (r # rs) =
     (case disk r of
        None \<Rightarrow> Inl KeyError
      | Some m \<Rightarrow> (case lookup_all disk rs of Inl e \<Rightarrow> Inl e | Inr ms \<Rightarrow> Inr (m # ms)))"

fun replacing_migrations_by_app ::
  "(identity \<rightharpoonup> loaded_migration) \<Rightarrow> 'd changes \<Rightarrow> error + loaded_migration list list" where
  "replacing_migrations_by_app disk [] = Inr []"
| "replacing_migrations_by_app disk ((app, migrations) # rest) =
     (case lookup_all disk (concat (map replaces migrations)) of
        Inl e \<Rightarrow> Inl e
      | Inr ms \<Rightarrow>
          (case replacing_migrations_by_app disk rest of
             Inl e \<Rightarrow> Inl e
           | Inr mss \<Rightarrow> Inr (ms # mss)))"

text \<open>
  The body of the innermost loop, over what the generator yields for one loaded migration:
  \<^verbatim>\<open>operation.code = copy_func(operation.code)\<close>, then
  \<^verbatim>\<open>operation.code.__module__ = 'DELETEMEPLEASE'\<close>. A \<open>RunSQL\<close> has no attribute
  \<^verbatim>\<open>code\<close>; the other two cases are never yielded and have none either. The operations
  appended to \<^verbatim>\<open>operations\<close> are the ones gone through.
\<close>

fun rescue_operations :: "store \<Rightarrow> operation list \<Rightarrow> error + store" where
  "rescue_operations st [] = Inr st"
| "rescue_operations st (RunPython oid rc e # rest) =
     (let new = copy_func (funcs st (op_code st oid)) None;
          addr = next_func st;
          st1 = st\<lparr>funcs := (funcs st)(addr := new),
                   next_func := Suc addr,
                   op_code := (op_code st)(oid := addr)\<rparr>;
          st2 = st1\<lparr>funcs := (funcs st1)
                   (op_code st1 oid :=
                      (funcs st1 (op_code st1 oid))\<lparr>fn_module := Some ''DELETEMEPLEASE''\<rparr>)\<rparr>
      in rescue_operations st2 rest)"
| "rescue_operations st (operation # rest) = Inl AttributeError"

text \<open>
  The loop over the loaded migrations of one app: the operations and the imports
  gathered, and the store afterwards.
\<close>

fun rescue_migrations :: "store \<Rightarrow> loaded_migration list \<Rightarrow>
    error + (operation list \<times> string list \<times> store)" where
  "rescue_migrations st [] = Inr ([], [], st)"
| "rescue_migrations st (migration # rest) =
     (case get_imports (lm_module migration) of
        Inl e \<Rightarrow> Inl e
      | Inr imports \<Rightarrow>
          (case rescue_operations st
                  (fst (traverse (all_custom_operations (lm_operations migration)))) of
             Inl e \<Rightarrow> Inl e
           | Inr st1 \<Rightarrow>
               (case rescue_migrations st1 rest of
                  Inl e \<Rightarrow> Inl e
                | Inr (operations', imports', st2) \<Rightarrow>
                    Inr (fst (traverse (all_custom_operations (lm_operations migration))) @
                         operations',
                         imports @ imports', st2))))"

text \<open>
  The loop over the apps. \<^verbatim>\<open>changes[app][-1]\<close> raises \<^verbatim>\<open>IndexError\<close> on an empty
  list.
\<close>

fun add_non_elidables_loop ::
  "store \<Rightarrow> 'd changes \<Rightarrow> loaded_migration list list \<Rightarrow> error + ('d changes \<times> store)" where
  "add_non_elidables_loop st ((app, migrations) # rest) (replacing # remaining) =
     (case rescue_migrations st replacing of
        Inl e \<Rightarrow> Inl e
      | Inr (operations', imports, st1) \<Rightarrow>
          if migrations = [] then Inl IndexError
          else
            (let migration = last migrations;
                 migration' = migration\<lparr>operations := operations migration @ operations',
                                        extra_imports := Some imports\<rparr>
             in case add_non_elidables_loop st1 rest remaining of
                  Inl e \<Rightarrow> Inl e
                | Inr (rest', st2) \<Rightarrow> Inr ((app, butlast migrations @ [migration']) # rest', st2)))"
| "add_non_elidables_loop st changes replacing = Inr ([], st)"

definition add_non_elidables ::
  "loader \<Rightarrow> 'd changes \<Rightarrow> store \<Rightarrow> error + ('d changes \<times> store)" where
  "add_non_elidables ldr changes st =
     (case replacing_migrations_by_app (disk_migrations ldr) changes of
        Inl e \<Rightarrow> Inl e
      | Inr replacing \<Rightarrow> add_non_elidables_loop st changes replacing)"

text \<open>
  \<^verbatim>\<open>squash\<close>. \<open>changes\<close> is what \<^verbatim>\<open>super().changes(new_graph, trim_to_apps, convert_apps,
  migration_name)\<close> returned: the diff against an empty graph is Django's.
\<close>

definition squash ::
  "loader \<Rightarrow> 'd changes \<Rightarrow> string option \<Rightarrow> store \<Rightarrow> error + ('d changes \<times> store)" where
  "squash ldr changes migration_name st =
     (case rename_migrations (node_map ldr) changes migration_name of
        Inl e \<Rightarrow> Inl e
      | Inr renamed \<Rightarrow>
          add_non_elidables ldr (replace_current_migrations (node_map ldr) renamed) st)"

subsection \<open>More strings\<close>

text \<open>
  \<^verbatim>\<open>s.split(sep)\<close> for a non-empty separator: the pieces between the occurrences of
  \<open>sep\<close>, found from the left. \<open>acc\<close> holds the piece being read, reversed.
\<close>

fun split_acc :: "string \<Rightarrow> string \<Rightarrow> string \<Rightarrow> string list" where
  "split_acc sep acc [] = [rev acc]"
| "split_acc sep acc (c # cs) =
     (if sep \<noteq> [] \<and> startswith (c # cs) sep
      then rev acc # split_acc sep [] (drop (length sep - 1) cs)
      else split_acc sep (c # acc) cs)"

definition split_on :: "string \<Rightarrow> string \<Rightarrow> string list" where
  "split_on sep s = split_acc sep [] s"

text \<open>\<^verbatim>\<open>s.split()\<close>: the words between runs of white space.\<close>

fun words_acc :: "string \<Rightarrow> string \<Rightarrow> string list" where
  "words_acc acc [] = (if acc = [] then [] else [rev acc])"
| "words_acc acc (c # cs) =
     (if py_isspace c
      then (if acc = [] then words_acc [] cs else rev acc # words_acc [] cs)
      else words_acc (c # acc) cs)"

definition split_ws :: "string \<Rightarrow> string list" where
  "split_ws s = words_acc [] s"

text \<open>\<^verbatim>\<open>s.replace(old, new)\<close> for a non-empty \<open>old\<close>\<close>

fun replace :: "string \<Rightarrow> string \<Rightarrow> string \<Rightarrow> string" where
  "replace old new [] = []"
| "replace old new (c # cs) =
     (if old \<noteq> [] \<and> startswith (c # cs) old
      then new @ replace old new (drop (length old - 1) cs)
      else c # replace old new cs)"

text \<open>
  \<^verbatim>\<open>re.match(r"^import (.*)\.\d+[^\s]*$", line)\<close>. After \<^verbatim>\<open>import \<close> the line must
  split into a part without a line break, a dot, and a tail that starts with a digit and
  has no white space; \<^verbatim>\<open>$\<close> also matches before a line break that ends the line.
  \<open>match_tail\<close> is the tail, \<open>match_rest\<close> looks for the dot.
\<close>

definition match_tail :: "string \<Rightarrow> bool" where
  "match_tail t =
     ((t \<noteq> [] \<and> py_isdigit (hd t) \<and> list_all (\<lambda>c. \<not> py_isspace c) t)
      \<or> (t \<noteq> [] \<and> last t = CHR 0x0A \<and> butlast t \<noteq> [] \<and> py_isdigit (hd (butlast t))
          \<and> list_all (\<lambda>c. \<not> py_isspace c) (butlast t)))"

fun match_rest :: "string \<Rightarrow> bool" where
  "match_rest [] = False"
| "match_rest (c # cs) =
     ((c = CHR ''.'' \<and> match_tail cs) \<or> (c \<noteq> CHR 0x0A \<and> match_rest cs))"

definition is_migration_import :: "string \<Rightarrow> bool" where
  "is_migration_import line =
     (startswith line ''import '' \<and> match_rest (drop 7 line))"

subsection \<open>Sets of strings\<close>

text \<open>
  A Python set of strings is the list of its elements, each once. What Python leaves open
  is the order in which a set is iterated: \<^verbatim>\<open>list(s)\<close> and \<^verbatim>\<open>sorted(s, ...)\<close> go
  through the set in the order \<open>set_order\<close> of the writer's environment gives, which is
  meant to rearrange the list and is otherwise arbitrary. \<^verbatim>\<open>s.remove(x)\<close> raises
  \<^verbatim>\<open>KeyError\<close> when \<open>x\<close> is not in the set.
\<close>

definition set_add :: "string \<Rightarrow> string list \<Rightarrow> string list" where
  "set_add x s = (if x \<in> set s then s else s @ [x])"

definition set_update :: "string list \<Rightarrow> string list \<Rightarrow> string list" where
  "set_update s xs = fold set_add xs s"

definition set_discard :: "string \<Rightarrow> string list \<Rightarrow> string list" where
  "set_discard x s = removeAll x s"

definition set_remove :: "string \<Rightarrow> string list \<Rightarrow> error + string list" where
  "set_remove x s = (if x \<in> set s then Inr (removeAll x s) else Inl KeyError)"

subsection \<open>The writer\<close>

text \<open>
  What the writer takes from outside this file. \<open>operation_serialize\<close> is
  \<^verbatim>\<open>OperationWriter(operation).serialize()\<close>, the text of the operation and the set of
  imports it needs (in any order); it reads the function objects of the operation, hence
  the store. \<open>serialize_dependency\<close> and \<open>serialize_replaces\<close> are
  \<^verbatim>\<open>self.serialize(...)[0]\<close>, \<open>dependency_item\<close> gives \<^verbatim>\<open>dependency[0]\<close> and
  \<^verbatim>\<open>dependency[1]\<close>, \<open>getsource\<close> the source text \<^verbatim>\<open>inspect.getsource\<close> finds for a
  code object, \<open>header_template\<close> is \<^verbatim>\<open>MIGRATION_HEADER_TEMPLATE\<close> applied to version
  and timestamp, \<open>get_version\<close> and \<open>now\<close> are Django's version and the formatted time of
  the call, and \<open>set_order\<close> is the order in which a set is iterated.
\<close>

record 'd writer_env =
  operation_serialize :: "store \<Rightarrow> operation \<Rightarrow> string \<times> string list"
  serialize_dependency :: "'d \<Rightarrow> string"
  serialize_replaces :: "identity list \<Rightarrow> string"
  dependency_item :: "'d \<Rightarrow> string \<times> string"
  getsource :: "nat \<Rightarrow> string"
  header_template :: "string \<Rightarrow> string \<Rightarrow> string"
  get_version :: string
  now :: string
  set_order :: "string list \<Rightarrow> string list"

text \<open>The dictionary \<^verbatim>\<open>get_kwargs\<close> returns, and the one of \<^verbatim>\<open>MigrationWriter\<close>.\<close>

record kwargs =
  replaces_str :: string
  initial_str :: string
  operations_str :: string
  dependencies_str :: string
  imports_str :: string
  migration_header :: string

record writer_kwargs = kwargs +
  functions_str :: string

text \<open>The first loop: the texts of the operations, and their imports added to the set.\<close>

fun operations_loop :: "'d writer_env \<Rightarrow> store \<Rightarrow> operation list \<Rightarrow>
    string list \<times> string list \<Rightarrow> string list \<times> string list" where
  "operations_loop env st [] (imports, strings) = (imports, strings)"
| "operations_loop env st (operation # rest) (imports, strings) =
     (case operation_serialize env st operation of
        (operation_string, operation_imports) \<Rightarrow>
          operations_loop env st rest
            (set_update imports operation_imports, strings @ [operation_string]))"

text \<open>The second loop: the dependencies.\<close>

fun dependencies_loop :: "'d writer_env \<Rightarrow> 'd list \<Rightarrow>
    string list \<times> string list \<Rightarrow> string list \<times> string list" where
  "dependencies_loop env [] (imports, strings) = (imports, strings)"
| "dependencies_loop env (dependency # rest) (imports, strings) =
     (if fst (dependency_item env dependency) = ''__setting__''
      then dependencies_loop env rest
             (set_add ''from django.conf import settings'' imports,
              strings @ [''        migrations.swappable_dependency(settings.'' @
                         snd (dependency_item env dependency) @ ''),''])
      else dependencies_loop env rest
             (imports,
              strings @ [''        '' @ serialize_dependency env dependency @ '','']))"

text \<open>
  The third loop, over \<^verbatim>\<open>list(imports)\<close>: the state is \<open>imports\<close>,
  \<open>migration_imports\<close> and \<open>needs_manual_porting\<close>.
\<close>

fun porting_loop :: "string list \<Rightarrow> string list \<times> string list \<times> bool \<Rightarrow>
    error + (string list \<times> string list \<times> bool)" where
  "porting_loop [] state = Inr state"
| "porting_loop (line # rest) (imports, migration_imports, needs_manual_porting) =
     (if is_migration_import line
      then (case split_on ''import'' line of
              before # path # others \<Rightarrow>
                (case set_remove line imports of
                   Inl e \<Rightarrow> Inl e
                 | Inr imports' \<Rightarrow>
                     porting_loop rest
                       (imports', set_add (strip path) migration_imports, True))
            | _ \<Rightarrow> Inl IndexError)
      else porting_loop rest (imports, migration_imports, needs_manual_porting))"

text \<open>Merging the \<^verbatim>\<open>models\<close> import with the \<^verbatim>\<open>migrations\<close> import.\<close>

definition merge_models :: "string list \<Rightarrow> string list" where
  "merge_models imports =
     (if ''from django.db import models'' \<in> set imports
      then set_add ''from django.db import migrations, models''
             (set_discard ''from django.db import models'' imports)
      else set_add ''from django.db import migrations'' imports)"

text \<open>
  \<^verbatim>\<open>sorted(imports, key=lambda i: i.split()[1])\<close>, on the lines in the order the set is
  iterated. \<^verbatim>\<open>i.split()[1]\<close> raises \<^verbatim>\<open>IndexError\<close> for a line of fewer than two
  words; Python's sort is stable.
\<close>

definition import_key :: "string \<Rightarrow> string" where
  "import_key i = split_ws i ! 1"

definition sorted_imports :: "string list \<Rightarrow> error + string list" where
  "sorted_imports lines =
     (if list_all (\<lambda>i. 2 \<le> length (split_ws i)) lines
      then Inr (sort_key import_key lines)
      else Inl IndexError)"

text \<open>
  The import lines of the block before they are sorted, the paths for the comment, and
  \<open>needs_manual_porting\<close>: the part of \<^verbatim>\<open>get_kwargs\<close> that builds the sets, down to the
  merge.
\<close>

definition import_lines :: "'d writer_env \<Rightarrow> store \<Rightarrow> 'd migration \<Rightarrow>
    error + (string list \<times> string list \<times> bool)" where
  "import_lines env st migration =
     (case operations_loop env st (operations migration) ([], []) of
        (imports1, operation_strings) \<Rightarrow>
          (case dependencies_loop env (dependencies migration) (imports1, []) of
             (imports2, dependency_strings) \<Rightarrow>
               (case porting_loop (set_order env imports2) (imports2, [], False) of
                  Inl e \<Rightarrow> Inl e
                | Inr (imports3, migration_imports, needs_manual_porting) \<Rightarrow>
                    Inr (merge_models imports3, migration_imports, needs_manual_porting))))"

definition manual_porting_comment :: "string list \<Rightarrow> string" where
  "manual_porting_comment migration_imports =
     [CHR 0x0A, CHR 0x0A] @
     ''# Functions from the following migrations need manual copying.'' @ [CHR 0x0A] @
     ''# Move them and any dependencies into this file, then update the'' @ [CHR 0x0A] @
     ''# RunPython operations to refer to the local versions:'' @ [CHR 0x0A] @
     ''# '' @ join ([CHR 0x0A] @ ''# '') (sort migration_imports)"

text \<open>
  \<^verbatim>\<open>ReplacementMigrationWriter.get_kwargs\<close>: the dictionary, and what
  \<^verbatim>\<open>self.needs_manual_porting\<close> is afterwards.
\<close>

definition get_kwargs :: "'d writer_env \<Rightarrow> store \<Rightarrow> 'd migration \<Rightarrow> bool \<Rightarrow>
    error + (kwargs \<times> bool)" where
  "get_kwargs env st migration include_header =
     (let operation_strings = snd (operations_loop env st (operations migration) ([], []));
          dependency_strings =
            snd (dependencies_loop env (dependencies migration)
                   (fst (operations_loop env st (operations migration) ([], [])), []))
      in case import_lines env st migration of
           Inl e \<Rightarrow> Inl e
         | Inr (imports, migration_imports, needs_manual_porting) \<Rightarrow>
             (case sorted_imports (set_order env imports) of
                Inl e \<Rightarrow> Inl e
              | Inr sorted_lines \<Rightarrow>
                  Inr (\<lparr> replaces_str =
                           (if replaces migration \<noteq> []
                            then [CHR 0x0A] @ ''    replaces = '' @
                                 serialize_replaces env (replaces migration) @ [CHR 0x0A]
                            else []),
                         initial_str =
                           (if initial migration
                            then [CHR 0x0A] @ ''    initial = True'' @ [CHR 0x0A]
                            else []),
                         operations_str =
                           (if operation_strings \<noteq> []
                            then join [CHR 0x0A] operation_strings @ [CHR 0x0A] else []),
                         dependencies_str =
                           (if dependency_strings \<noteq> []
                            then join [CHR 0x0A] dependency_strings @ [CHR 0x0A] else []),
                         imports_str =
                           (if imports \<noteq> []
                            then join [CHR 0x0A] sorted_lines @ [CHR 0x0A] else []) @
                           (if migration_imports \<noteq> []
                            then manual_porting_comment migration_imports else []),
                         migration_header =
                           (if include_header
                            then header_template env (get_version env) (now env)
                            else []) \<rparr>,
                       needs_manual_porting)))"

text \<open>
  \<^verbatim>\<open>MigrationWriter.get_kwargs\<close>. The sources are those of the \<^verbatim>\<open>code\<close> of the
  \<open>RunPython\<close> operations in \<^verbatim>\<open>migration.operations\<close> itself, nested ones not
  included.
\<close>

fun function_sources :: "'d writer_env \<Rightarrow> store \<Rightarrow> operation list \<Rightarrow> string list" where
  "function_sources env st [] = []"
| "function_sources env st (RunPython oid rc e # rest) =
     getsource env (fn_code (funcs st (op_code st oid))) # function_sources env st rest"
| "function_sources env st (operation # rest) = function_sources env st rest"

definition migration_writer_get_kwargs ::
  "'d writer_env \<Rightarrow> store \<Rightarrow> 'd migration \<Rightarrow> bool \<Rightarrow> error + (writer_kwargs \<times> bool)" where
  "migration_writer_get_kwargs env st migration include_header =
     (case get_kwargs env st migration include_header of
        Inl e \<Rightarrow> Inl e
      | Inr (kw, needs_manual_porting) \<Rightarrow>
          (let functions = function_sources env st (operations migration)
           in Inr (kwargs.extend
                     (kw\<lparr> operations_str := replace ''DELETEMEPLEASE.'' [] (operations_str kw),
                          imports_str :=
                            replace (''import DELETEMEPLEASE'' @ [CHR 0x0A]) [] (imports_str kw) \<rparr>)
                     (writer_kwargs.fields
                        ((if functions \<noteq> [] then [CHR 0x0A, CHR 0x0A] else []) @
                         join [CHR 0x0A, CHR 0x0A] functions)),
                   needs_manual_porting)))"

text \<open>\<^verbatim>\<open>MigrationWriter.as_string\<close>: the template of the class, filled in.\<close>

definition as_string ::
  "'d writer_env \<Rightarrow> store \<Rightarrow> 'd migration \<Rightarrow> bool \<Rightarrow> error + string" where
  "as_string env st migration include_header =
     (case migration_writer_get_kwargs env st migration include_header of
        Inl e \<Rightarrow> Inl e
      | Inr (kw, needs_manual_porting) \<Rightarrow>
          Inr (migration_header kw @ imports_str kw @ functions_str kw @
               [CHR 0x0A, CHR 0x0A] @
               ''class Migration(migrations.Migration):'' @ [CHR 0x0A] @
               replaces_str kw @ initial_str kw @ [CHR 0x0A] @
               ''    dependencies = ['' @ [CHR 0x0A] @
               dependencies_str kw @
               ''    ]'' @ [CHR 0x0A, CHR 0x0A] @
               ''    operations = ['' @ [CHR 0x0A] @
               operations_str kw @
               ''    ]'' @ [CHR 0x0A]))"

text \<open>
  What the third loop enters into \<open>migration_imports\<close> for a line:
  \<^verbatim>\<open>line.split("import")[1].strip()\<close>.
\<close>

definition import_path :: "string \<Rightarrow> string" where
  "import_path line = strip (split_on ''import'' line ! 1)"

subsection \<open>The command\<close>

text \<open>
  What \<^verbatim>\<open>handle\<close> takes from outside this file: the labels for which
  \<^verbatim>\<open>apps.get_app_config\<close> finds an app, the \<^verbatim>\<open>MigrationLoader\<close>, the changes that
  \<^verbatim>\<open>super().changes\<close> computes for \<^verbatim>\<open>trim_to_apps\<close> and \<^verbatim>\<open>convert_apps\<close>, the
  environment of the writer, \<^verbatim>\<open>writer.path\<close>, and the path of \<^verbatim>\<open>__init__.py\<close> in
  the directory of \<^verbatim>\<open>writer.path\<close>. Of the world only the files are kept, a map from
  paths to contents; what the command prints is left out.
\<close>

record 'd command_env =
  app_configs :: "string set"
  migration_loader :: loader
  autodetector_changes :: "string set option \<Rightarrow> 'd changes"
  writer_environment :: "'d writer_env"
  writer_path :: "'d migration \<Rightarrow> string"
  init_path :: "'d migration \<Rightarrow> string"

type_synonym filesystem = "string \<rightharpoonup> string"

text \<open>
  \<^verbatim>\<open>write_migration_files\<close> with \<^verbatim>\<open>dry_run = False\<close> and
  \<^verbatim>\<open>include_header = False\<close>, as \<^verbatim>\<open>handle\<close> sets them: the inner loop, where
  \<open>created\<close> is \<^verbatim>\<open>directory_created.get(app_label)\<close>, and the outer loop. A writer
  that raises leaves the files written so far.
\<close>

fun write_app_migrations :: "'d command_env \<Rightarrow> store \<Rightarrow> 'd migration list \<Rightarrow> bool \<Rightarrow>
    filesystem \<Rightarrow> error option \<times> filesystem" where
  "write_app_migrations env st [] created fs = (None, fs)"
| "write_app_migrations env st (migration # rest) created fs =
     (let fs1 = (if \<not> created \<and> fs (init_path env migration) = None
                 then fs(init_path env migration \<mapsto> [])
                 else fs)
      in case as_string (writer_environment env) st migration False of
           Inl e \<Rightarrow> (Some e, fs1)
         | Inr migration_string \<Rightarrow>
             write_app_migrations env st rest True
               (fs1(writer_path env migration \<mapsto> migration_string)))"

fun write_migration_files :: "'d command_env \<Rightarrow> store \<Rightarrow> 'd changes \<Rightarrow>
    filesystem \<Rightarrow> error option \<times> filesystem" where
  "write_migration_files env st [] fs = (None, fs)"
| "write_migration_files env st ((label, app_migrations) # rest) fs =
     (case write_app_migrations env st app_migrations False fs of
        (Some e, fs') \<Rightarrow> (Some e, fs')
      | (None, fs') \<Rightarrow> write_migration_files env st rest fs')"

text \<open>
  The sum \<^verbatim>\<open>handle\<close> forms over \<^verbatim>\<open>itertools.chain.from_iterable(changes.values())\<close>.
\<close>

definition replacing_migrations :: "'d changes \<Rightarrow> nat" where
  "replacing_migrations changes =
     sum_list (map (\<lambda>migration. length (replaces migration)) (concat (map snd changes)))"

text \<open>
  \<^verbatim>\<open>handle\<close>: how it ends (\<open>None\<close> when it returns) and the files afterwards.
  \<^verbatim>\<open>migration_name\<close> is the empty string, and \<^verbatim>\<open>app_labels or None\<close> is \<open>None\<close> for
  no labels.
\<close>

definition handle :: "'d command_env \<Rightarrow> string list \<Rightarrow> store \<Rightarrow> filesystem \<Rightarrow>
    error option \<times> filesystem" where
  "handle env app_labels st fs =
     (if \<exists>l \<in> set app_labels. l \<notin> app_configs env then (Some (SystemExit 2), fs)
      else case squash (migration_loader env)
                  (autodetector_changes env
                     (if app_labels = [] then None else Some (set app_labels)))
                  (Some []) st of
             Inl e \<Rightarrow> (Some e, fs)
           | Inr (changes, st') \<Rightarrow>
               if replacing_migrations changes = 0
               then (Some (CommandError ''There are no migrations to squash.''), fs)
               else write_migration_files env st' changes fs)"

subsection \<open>Observations on the store\<close>

text \<open>\<^verbatim>\<open>operation.code.__module__\<close> of the \<open>RunPython\<close> object \<open>oid\<close>\<close>

definition code_attribution :: "store \<Rightarrow> nat \<Rightarrow> string option" where
  "code_attribution st oid = fn_module (funcs st (op_code st oid))"

text \<open>
  In a store the command can start from, the \<^verbatim>\<open>code\<close> of every \<open>RunPython\<close> is an
  allocated function object.
\<close>

definition store_ok :: "store \<Rightarrow> bool" where
  "store_ok st = (\<forall>oid. op_code st oid < next_func st)"

text \<open>
  How a store can differ from an earlier one after operations were rescued: more function
  objects, the earlier ones as they were, and \<^verbatim>\<open>code\<close> attributes either as they were
  or holding a later function object that carries the marker and the code object of the
  earlier one.
\<close>

definition store_extends :: "store \<Rightarrow> store \<Rightarrow> bool" where
  "store_extends st st' =
     (store_ok st' \<and> next_func st \<le> next_func st'
      \<and> (\<forall>a < next_func st. funcs st' a = funcs st a)
      \<and> (\<forall>oid. op_code st' oid = op_code st oid
                 \<or> (next_func st \<le> op_code st' oid
                      \<and> fn_module (funcs st' (op_code st' oid)) = Some ''DELETEMEPLEASE''))
      \<and> (\<forall>oid. fn_code (funcs st' (op_code st' oid)) = fn_code (funcs st (op_code st oid))))"

text \<open>
  What the loop body of the rescue does to the \<^verbatim>\<open>code\<close> of one \<open>RunPython\<close>: after it,
  seen from an earlier store \<open>st\<close>, the attribute holds a function object that \<open>st\<close> did not
  have and that carries the marker. \<open>tag_copy\<close> is the store after the two assignments.
\<close>

definition repointed :: "store \<Rightarrow> store \<Rightarrow> nat \<Rightarrow> bool" where
  "repointed st st' oid =
     (next_func st \<le> op_code st' oid
      \<and> fn_module (funcs st' (op_code st' oid)) = Some ''DELETEMEPLEASE'')"

definition tag_copy :: "store \<Rightarrow> nat \<Rightarrow> store" where
  "tag_copy st oid =
     st\<lparr>next_func := Suc (next_func st),
        op_code := (op_code st)(oid := next_func st),
        funcs := (funcs st)(next_func st :=
          (copy_func (funcs st (op_code st oid)) None)\<lparr>fn_module := Some ''DELETEMEPLEASE''\<rparr>)\<rparr>"

subsection \<open>A small project\<close>

text \<open>
  The app \<^verbatim>\<open>app\<close> has \<^verbatim>\<open>0001_initial\<close> and \<^verbatim>\<open>0002_add_field\<close> on disk; the second
  holds a \<open>RunPython\<close>, the operation object 5, whose \<^verbatim>\<open>code\<close> is the function
  \<^verbatim>\<open>populate_default\<close> at address 0. The graph lists the two in the order they were not
  written in, to show the sorting.
\<close>

definition ex_func :: func where
  "ex_func = \<lparr> fn_code = 0,
               fn_globals_name = Some ''app.migrations.0002_add_field'',
               fn_name = ''populate_default'',
               fn_defaults = None, fn_closure = None,
               fn_module = Some ''app.migrations.0002_add_field'' \<rparr>"

definition ex_store :: store where
  "ex_store = \<lparr> funcs = (\<lambda>a. ex_func), next_func = 1, op_code = (\<lambda>oid. 0) \<rparr>"

definition ex_loader :: loader where
  "ex_loader =
     \<lparr> node_map = [(''app'', ''0002_add_field''), (''app'', ''0001_initial'')],
       disk_migrations =
         [(''app'', ''0001_initial'') \<mapsto>
            \<lparr> lm_operations = [OtherOp ''CreateModel'' False],
              lm_module = Some [ImportFrom (Some ''django.db'') [''migrations'', ''models'']] \<rparr>,
          (''app'', ''0002_add_field'') \<mapsto>
            \<lparr> lm_operations = [OtherOp ''AddField'' False, RunPython 5 None False],
              lm_module = Some [ImportFrom (Some ''django.db'') [''migrations'']] \<rparr>] \<rparr>"

text \<open>What the diff can propose for it: one new migration, or two.\<close>

definition ex_new :: "identity migration" where
  "ex_new = \<lparr> app_label = ''app'', name = ''0001_initial'',
              operations = [OtherOp ''CreateModel'' False],
              dependencies = [], replaces = [], initial = True,
              extra_imports = None \<rparr>"

definition ex_new2 :: "identity migration" where
  "ex_new2 = \<lparr> app_label = ''app'', name = ''0002_auto'',
               operations = [OtherOp ''AddField'' False],
               dependencies = [(''app'', ''0001_initial'')], replaces = [], initial = False,
               extra_imports = None \<rparr>"

text \<open>
  The same app where \<^verbatim>\<open>0002_add_field\<close> holds a non-elidable \<open>RunSQL\<close> instead.
\<close>

definition ex_sql_loader :: loader where
  "ex_sql_loader =
     \<lparr> node_map = [(''app'', ''0001_initial''), (''app'', ''0002_add_field'')],
       disk_migrations =
         [(''app'', ''0001_initial'') \<mapsto>
            \<lparr> lm_operations = [OtherOp ''CreateModel'' False],
              lm_module = Some [ImportFrom (Some ''django.db'') [''migrations'', ''models'']] \<rparr>,
          (''app'', ''0002_add_field'') \<mapsto>
            \<lparr> lm_operations =
                [OtherOp ''AddField'' False, RunSQL ''UPDATE app_t SET n = 0'' None False],
              lm_module = Some [ImportFrom (Some ''django.db'') [''migrations'']] \<rparr>] \<rparr>"

text \<open>
  The same project without history: nothing on disk and an empty graph.
\<close>

definition ex_empty_loader :: loader where
  "ex_empty_loader = \<lparr> node_map = [], disk_migrations = Map.empty \<rparr>"

text \<open>
  A writer environment. Its serializer stands for Django's: a \<open>RunPython\<close> is written with
  the module and the name of its functions and needs the import of each module; a
  \<^verbatim>\<open>CreateModel\<close> stands for a model with one field whose default is
  \<^verbatim>\<open>django.utils.timezone.now\<close> and one whose default is a datetime in UTC, any other
  operation for one whose fields need only \<^verbatim>\<open>models\<close>. Sets are iterated in the order
  of their list.
\<close>

definition ex_module :: "func \<Rightarrow> string" where
  "ex_module f = (case fn_module f of None \<Rightarrow> ''None'' | Some m \<Rightarrow> m)"

definition ex_serialize :: "store \<Rightarrow> operation \<Rightarrow> string \<times> string list" where
  "ex_serialize st operation =
     (case operation of
        RunPython oid rc e \<Rightarrow>
          (let f = funcs st (op_code st oid)
           in case rc of
                None \<Rightarrow>
                  (''        migrations.RunPython(code='' @ ex_module f @ ''.'' @ fn_name f @ ''),'',
                   [''import '' @ ex_module f])
              | Some a \<Rightarrow>
                  (''        migrations.RunPython(code='' @ ex_module f @ ''.'' @ fn_name f @
                   '', reverse_code='' @ ex_module (funcs st a) @ ''.'' @ fn_name (funcs st a) @
                   ''),'',
                   [''import '' @ ex_module f, ''import '' @ ex_module (funcs st a)]))
      | RunSQL s rs e \<Rightarrow> (''        migrations.RunSQL(sql='' @ s @ ''),'', [])
      | SeparateDatabaseAndState d s e \<Rightarrow> (''        migrations.SeparateDatabaseAndState(),'', [])
      | OtherOp n e \<Rightarrow>
          (''        migrations.'' @ n @ ''(),'',
           if n = ''CreateModel''
           then [''from django.db import models'', ''import django.utils.timezone'',
                 ''from django.utils.timezone import utc'']
           else [''from django.db import models'']))"

definition ex_env :: "identity writer_env" where
  "ex_env =
     \<lparr> operation_serialize = ex_serialize,
       serialize_dependency = (\<lambda>d. ''('' @ fst d @ '', '' @ snd d @ '')''),
       serialize_replaces =
         (\<lambda>ids. ''['' @ join '', '' (map (\<lambda>d. ''('' @ fst d @ '', '' @ snd d @ '')'') ids) @ '']''),
       dependency_item = (\<lambda>d. d),
       getsource = (\<lambda>c. ''def f(apps, schema_editor):'' @ [CHR 0x0A] @ ''    pass'' @ [CHR 0x0A]),
       header_template =
         (\<lambda>version timestamp.
            ''# Generated by Django '' @ version @ '' on '' @ timestamp @ [CHR 0x0A, CHR 0x0A]),
       get_version = ''3.0'',
       now = ''2020-01-01 10:00'',
       set_order = (\<lambda>s. s) \<rparr>"

text \<open>
  A squashed migration of \<^verbatim>\<open>app\<close> that rescued a \<open>RunPython\<close> from
  \<^verbatim>\<open>0007_import_data\<close>: its \<^verbatim>\<open>code\<close> is the tagged copy at address 0, its
  \<^verbatim>\<open>reverse_code\<close> is still the function \<^verbatim>\<open>undo\<close> of that module, at address 1.
\<close>

definition ex_undo :: func where
  "ex_undo = \<lparr> fn_code = 1,
               fn_globals_name = Some ''app.migrations.0007_import_data'',
               fn_name = ''undo'',
               fn_defaults = None, fn_closure = None,
               fn_module = Some ''app.migrations.0007_import_data'' \<rparr>"

definition ex_ported_store :: store where
  "ex_ported_store =
     \<lparr> funcs = (\<lambda>a. if a = 1 then ex_undo
                     else ex_func\<lparr>fn_module := Some ''DELETEMEPLEASE''\<rparr>),
       next_func = 2, op_code = (\<lambda>oid. 0) \<rparr>"

definition ex_ported :: "identity migration" where
  "ex_ported = \<lparr> app_label = ''app'', name = ''0008_squashed'',
                 operations = [OtherOp ''AddField'' False, RunPython 5 (Some 1) False],
                 dependencies = [(''__setting__'', ''AUTH_USER_MODEL'')],
                 replaces = [(''app'', ''0007_import_data'')], initial = True,
                 extra_imports = Some [''from django.db import migrations''] \<rparr>"

text \<open>A command environment for the project without history.\<close>

definition ex_command :: "identity command_env" where
  "ex_command =
     \<lparr> app_configs = {''app''},
       migration_loader = ex_empty_loader,
       autodetector_changes = (\<lambda>labels. [(''app'', [ex_new])]),
       writer_environment = ex_env,
       writer_path = (\<lambda>m. app_label m @ ''/migrations/'' @ name m @ ''.py''),
       init_path = (\<lambda>m. app_label m @ ''/migrations/__init__.py'') \<rparr>"

section \<open>The classifier\<close>

lemma traverse_simps [simp]:
  "fst (traverse g) = pending g" "snd (traverse g) = Generator []"
  by (simp_all add: traverse_def)

lemma all_custom_operations_append:
  "pending (all_custom_operations (xs @ ys)) =
   pending (all_custom_operations xs) @ pending (all_custom_operations ys)"
  by (induction xs) simp_all

lemma all_custom_operations_sound:
  "x \<in> set (pending (all_custom_operations ops)) \<Longrightarrow> \<not> elidable x \<and> is_custom x"
  by (induction ops rule: all_custom_operations.induct)
     (auto split: operation.splits if_splits)

lemma all_custom_operations_length:
  "length (pending (all_custom_operations ops)) \<le> count_operations ops"
proof (induction ops rule: all_custom_operations.induct)
  case 1
  show ?case by simp
next
  case (2 operation rest)
  show ?case
  proof (cases "elidable operation")
    case True
    with 2 show ?thesis by (cases operation) auto
  next
    case False
    with 2 show ?thesis by (cases operation) fastforce+
  qed
qed

text \<open>
  C6, as the specification states it: the sequence the classifier produces can be traversed
  again and yields the same operations. What a call produces is a generator, and a
  generator is spent by its traversal: for a single non-elidable \<open>RunPython\<close> the first
  traversal yields it and a second traversal of the same generator yields nothing.
\<close>

theorem all_custom_operations_second_traversal:
  "fst (traverse (all_custom_operations [RunPython 1 None False])) = [RunPython 1 None False]
   \<and> fst (traverse (snd (traverse (all_custom_operations [RunPython 1 None False])))) = []
   \<and> fst (traverse (snd (traverse (all_custom_operations [RunPython 1 None False])))) \<noteq>
       fst (traverse (all_custom_operations [RunPython 1 None False]))"
  by (simp add: traverse_def)

text \<open>
  C6, amended. A traversal of the generator a call returns yields nothing for the empty
  sequence and works through a sequence operation by operation, in order. An elidable
  operation contributes nothing, whatever it is and whatever it holds. A non-elidable
  \<open>RunPython\<close> or \<open>RunSQL\<close> contributes itself. A non-elidable
  \<open>SeparateDatabaseAndState\<close> contributes what its state operations yield, then what its
  database operations yield, and not itself. Any other operation contributes nothing.
  Everything yielded is a non-elidable \<open>RunPython\<close> or \<open>RunSQL\<close>, and what is yielded is
  no longer than the number of operation objects in the input. The call and the traversal
  neither read nor write the store and leave the operations as they are. The generator is
  good for one traversal: afterwards it is exhausted and a second traversal of it yields
  nothing; the operations are had again from a new call only.
\<close>

theorem all_custom_operations_contract:
  "fst (traverse (all_custom_operations [])) = []
   \<and> fst (traverse (all_custom_operations (xs @ ys))) =
       fst (traverse (all_custom_operations xs)) @ fst (traverse (all_custom_operations ys))
   \<and> (elidable op \<longrightarrow> fst (traverse (all_custom_operations [op])) = [])
   \<and> (\<not> elidable op \<and> is_custom op \<longrightarrow> fst (traverse (all_custom_operations [op])) = [op])
   \<and> fst (traverse (all_custom_operations [SeparateDatabaseAndState d s False])) =
       fst (traverse (all_custom_operations s)) @ fst (traverse (all_custom_operations d))
   \<and> fst (traverse (all_custom_operations [OtherOp n e])) = []
   \<and> (\<forall>x \<in> set (fst (traverse (all_custom_operations ops))). \<not> elidable x \<and> is_custom x)
   \<and> length (fst (traverse (all_custom_operations ops))) \<le> count_operations ops
   \<and> snd (traverse (all_custom_operations ops)) = Generator []
   \<and> fst (traverse (snd (traverse (all_custom_operations ops)))) = []"
proof -
  have custom:
    "\<not> elidable op \<and> is_custom op \<longrightarrow> pending (all_custom_operations [op]) = [op]"
    by (cases op) auto
  show ?thesis
    using custom all_custom_operations_append [of xs ys]
      all_custom_operations_sound [of _ ops] all_custom_operations_length [of ops]
    by (auto split: operation.splits)
qed

theorem all_custom_operations_contract_witness:
  "elidable (SeparateDatabaseAndState [] [RunPython 7 None False] True)
   \<and> fst (traverse (all_custom_operations
        [SeparateDatabaseAndState [] [RunPython 7 None False] True])) = []
   \<and> fst (traverse (all_custom_operations
        [SeparateDatabaseAndState [RunSQL ''DROP TABLE t'' None False]
           [RunPython 1 None False, RunPython 2 None True] False])) =
      [RunPython 1 None False, RunSQL ''DROP TABLE t'' None False]
   \<and> set (fst (traverse (all_custom_operations
          [OtherOp ''AddField'' False, RunPython 1 None False, RunSQL ''SELECT 1'' None True])))
       \<subseteq> {x. \<not> elidable x \<and> is_custom x}
   \<and> fst (traverse (snd (traverse (all_custom_operations
          [OtherOp ''AddField'' False, RunPython 1 None False, RunSQL ''SELECT 1'' None True]))))
       = []"
  using all_custom_operations_contract
    [of "[]" "[]" "SeparateDatabaseAndState [] [RunPython 7 None False] True"
        "[RunSQL ''DROP TABLE t'' None False]"
        "[RunPython 1 None False, RunPython 2 None True]" "''AddField''" False
        "[OtherOp ''AddField'' False, RunPython 1 None False, RunSQL ''SELECT 1'' None True]"]
  by auto

section \<open>Renaming\<close>

text \<open>
  C1. The specification says: the i-th new migration of an app is numbered with the greatest existing
  ordinal of the app plus i + 1, so that several new migrations of one app get consecutive
  numbers. The code reads the counter of the app for every migration and never stores the
  number it used. Here the app has the ordinals 1 and 2 on disk and the diff proposes two
  migrations: both are named \<^verbatim>\<open>0003_squashed\<close>, where the specification names the second
  \<^verbatim>\<open>0004_squashed\<close>.
\<close>

theorem squash_repeats_ordinal:
  "rename_migrations (node_map ex_loader) [(''app'', [ex_new, ex_new2])] None =
     Inr [(''app'', [ex_new\<lparr>name := ''0003_squashed''\<rparr>, ex_new2\<lparr>name := ''0003_squashed''\<rparr>])]
   \<and> \<not> isl (squash ex_loader [(''app'', [ex_new, ex_new2])] None ex_store)
   \<and> map (map name) (map snd
        (fst (projr (squash ex_loader [(''app'', [ex_new, ex_new2])] None ex_store)))) =
      [[''0003_squashed'', ''0003_squashed'']]"
  by code_simp

section \<open>Replaces\<close>

lemma migrations_by_app_filter:
  "migrations_by_app graph by_app app = by_app app @ filter (\<lambda>i. fst i = app) graph"
proof (induction graph by_app rule: migrations_by_app.induct)
  case (1 by_app)
  show ?case by simp
next
  case (2 a migration rest by_app)
  show ?case
  proof (cases "a = app")
    case True
    then show ?thesis using 2 by (simp del: fun_upd_apply add: fun_upd_same)
  next
    case False
    then show ?thesis using 2 by (simp del: fun_upd_apply add: fun_upd_other)
  qed
qed

lemma replace_current_migrations_replaces:
  assumes "(app, migrations) \<in> set (replace_current_migrations graph changes)"
      and "migration \<in> set migrations"
  shows "replaces migration = sort (filter (\<lambda>i. fst i = app) graph)"
  using assms
  by (auto simp: replace_current_migrations_def migrations_by_app_filter Let_def)

text \<open>
  The rescue changes the operations and the imports of the last migration of each app and
  nothing else: the apps, and the names and the \<open>replaces\<close> of their migrations, stay.
\<close>

lemma add_non_elidables_loop_fields:
  assumes "add_non_elidables_loop st changes replacing = Inr (changes', st')"
      and "(app, migrations') \<in> set changes'"
  shows "\<exists>migrations. (app, migrations) \<in> set changes
           \<and> map replaces migrations' = map replaces migrations
           \<and> map name migrations' = map name migrations"
  using assms
proof (induction st changes replacing arbitrary: changes' st'
       rule: add_non_elidables_loop.induct)
  case (1 st a ms rest replacing remaining)
  from "1.prems"(1) obtain ops imps st1 rest' where
    r: "rescue_migrations st replacing = Inr (ops, imps, st1)" and
    ne: "ms \<noteq> []" and
    l: "add_non_elidables_loop st1 rest remaining = Inr (rest', st')" and
    c: "changes' = (a, butlast ms @ [(last ms)\<lparr>operations := operations (last ms) @ ops,
                                        extra_imports := Some imps\<rparr>]) # rest'"
    by (auto split: sum.splits prod.splits if_splits simp: Let_def)
  show ?case
  proof (cases "(app, migrations') \<in> set rest'")
    case True
    from "1.IH"[OF r refl refl ne refl refl l True] show ?thesis by auto
  next
    case False
    with "1.prems"(2) c have e: "app = a"
      "migrations' = butlast ms @ [(last ms)\<lparr>operations := operations (last ms) @ ops,
                                        extra_imports := Some imps\<rparr>]" by auto
    have "map replaces migrations' = map replaces (butlast ms @ [last ms])"
      unfolding e by simp
    moreover have "map name migrations' = map name (butlast ms @ [last ms])"
      unfolding e by simp
    ultimately show ?thesis using ne e by auto
  qed
qed auto

text \<open>
  C3. When squash returns, every new migration of an app has as \<open>replaces\<close> the sorted
  list of the identities the graph holds for that app: it is sorted, and, the keys of the
  graph being distinct, it holds each of these identities once and nothing else. For an app
  the graph does not know it is empty. This does not depend on how many migrations the app
  got.
\<close>

theorem squash_replaces:
  assumes "squash ldr changes migration_name st = Inr (changes', st')"
      and "(app, migrations) \<in> set changes'"
      and "migration \<in> set migrations"
  shows "replaces migration = sort (filter (\<lambda>i. fst i = app) (node_map ldr))
       \<and> sorted (replaces migration)
       \<and> set (replaces migration) = {i \<in> set (node_map ldr). fst i = app}
       \<and> (distinct (node_map ldr) \<longrightarrow> distinct (replaces migration))
       \<and> (app \<notin> fst ` set (node_map ldr) \<longrightarrow> replaces migration = [])"
proof -
  from assms(1) obtain renamed replacing where
    l: "add_non_elidables_loop st (replace_current_migrations (node_map ldr) renamed) replacing
          = Inr (changes', st')"
    by (auto simp: squash_def add_non_elidables_def split: sum.splits)
  from add_non_elidables_loop_fields[OF l assms(2)] obtain before where
    b: "(app, before) \<in> set (replace_current_migrations (node_map ldr) renamed)" and
    m: "map replaces migrations = map replaces before"
    by blast
  from assms(3) have "replaces migration \<in> set (map replaces migrations)" by simp
  with m obtain migration0 where
    "migration0 \<in> set before" "replaces migration0 = replaces migration" by auto
  with replace_current_migrations_replaces[OF b] have
    eq: "replaces migration = sort (filter (\<lambda>i. fst i = app) (node_map ldr))" by metis
  have "app \<notin> fst ` set (node_map ldr) \<longrightarrow> filter (\<lambda>i. fst i = app) (node_map ldr) = []"
    by (auto simp: filter_empty_conv)
  with eq show ?thesis by auto
qed

theorem squash_replaces_witness:
  "map (map replaces) (map snd (fst (projr (squash ex_loader [(''app'', [ex_new, ex_new2])]
       (Some []) ex_store)))) =
     [[[(''app'', ''0001_initial''), (''app'', ''0002_add_field'')],
       [(''app'', ''0001_initial''), (''app'', ''0002_add_field'')]]]
   \<and> sorted [(''app'', ''0001_initial''), (''app'', ''0002_add_field'')]
   \<and> set [(''app'', ''0001_initial''), (''app'', ''0002_add_field'')] =
       {i \<in> set (node_map ex_loader). fst i = ''app''}"
proof -
  let ?r = "squash ex_loader [(''app'', [ex_new, ex_new2])] (Some []) ex_store"
  have ok: "\<not> isl ?r" by code_simp
  have ev: "map (map replaces) (map snd (fst (projr ?r))) =
     [[[(''app'', ''0001_initial''), (''app'', ''0002_add_field'')],
       [(''app'', ''0001_initial''), (''app'', ''0002_add_field'')]]]"
    by code_simp
  have apps: "map fst (fst (projr ?r)) = [''app'']" by code_simp
  from ok obtain c s where r: "?r = Inr (c, s)" by (cases ?r) auto
  with ev apps obtain ms where c: "c = [(''app'', ms)]" by auto
  with r ev obtain m m' where ms: "ms = [m, m']" by auto
  with r ev c have m: "replaces m = [(''app'', ''0001_initial''), (''app'', ''0002_add_field'')]"
    by auto
  have "(''app'', ms) \<in> set c" "m \<in> set ms" using c ms by auto
  from squash_replaces[OF r this] m ev show ?thesis by simp
qed

section \<open>The rescue\<close>

text \<open>
  C2. The specification says: every non-elidable \<open>RunPython\<close> and \<open>RunSQL\<close> of the replaced migrations
  is appended to the last new migration of the app. The loop over what the classifier
  yields reads \<^verbatim>\<open>operation.code\<close> of each operation, and a \<open>RunSQL\<close> has no such
  attribute: with a non-elidable \<open>RunSQL\<close> in \<^verbatim>\<open>0002_add_field\<close> the classifier yields it
  and squash ends in \<^verbatim>\<open>AttributeError\<close>, returning no migration at all.
\<close>

theorem squash_run_sql_attribute_error:
  "map_option (\<lambda>m. fst (traverse (all_custom_operations (lm_operations m))))
       (disk_migrations ex_sql_loader (''app'', ''0002_add_field'')) =
     Some [RunSQL ''UPDATE app_t SET n = 0'' None False]
   \<and> isl (squash ex_sql_loader [(''app'', [ex_new])] None ex_store)
   \<and> projl (squash ex_sql_loader [(''app'', [ex_new])] None ex_store) = AttributeError"
  by code_simp

lemma store_extends_refl: "store_ok st \<Longrightarrow> store_extends st st"
  by (simp add: store_extends_def)

lemma store_extends_trans:
  assumes a: "store_extends st st1" and b: "store_extends st1 st2"
  shows "store_extends st st2"
proof -
  have ok1: "\<And>oid. op_code st1 oid < next_func st1"
    using a by (simp add: store_extends_def store_ok_def)
  have f12: "\<And>x. x < next_func st1 \<Longrightarrow> funcs st2 x = funcs st1 x"
    using b by (simp add: store_extends_def)
  have "\<And>oid. op_code st2 oid = op_code st oid
          \<or> (next_func st \<le> op_code st2 oid
               \<and> fn_module (funcs st2 (op_code st2 oid)) = Some ''DELETEMEPLEASE'')"
  proof -
    fix oid
    from b have "op_code st2 oid = op_code st1 oid
       \<or> (next_func st1 \<le> op_code st2 oid
           \<and> fn_module (funcs st2 (op_code st2 oid)) = Some ''DELETEMEPLEASE'')"
      by (simp add: store_extends_def)
    moreover from a have "op_code st1 oid = op_code st oid
       \<or> (next_func st \<le> op_code st1 oid
           \<and> fn_module (funcs st1 (op_code st1 oid)) = Some ''DELETEMEPLEASE'')"
      by (simp add: store_extends_def)
    moreover from a have "next_func st \<le> next_func st1" by (simp add: store_extends_def)
    ultimately show "op_code st2 oid = op_code st oid
          \<or> (next_func st \<le> op_code st2 oid
               \<and> fn_module (funcs st2 (op_code st2 oid)) = Some ''DELETEMEPLEASE'')"
      using f12[OF ok1[of oid]] by auto
  qed
  moreover have "\<And>x. x < next_func st \<Longrightarrow> funcs st2 x = funcs st x"
    using a b by (simp add: store_extends_def)
  moreover have
    "\<And>oid. fn_code (funcs st2 (op_code st2 oid)) = fn_code (funcs st (op_code st oid))"
    using a b by (simp add: store_extends_def)
  ultimately show ?thesis
    using a b by (simp add: store_extends_def)
qed

lemma rescue_operations_extends:
  "store_ok st \<Longrightarrow> rescue_operations st ops = Inr st' \<Longrightarrow> store_extends st st'"
proof (induction st ops rule: rescue_operations.induct)
  case (1 st)
  then show ?case by (simp add: store_extends_refl)
next
  case (2 st oid rc e rest)
  define st2 where "st2 = st\<lparr>next_func := Suc (next_func st),
      op_code := (op_code st)(oid := next_func st),
      funcs := (funcs st)(next_func st :=
        (copy_func (funcs st (op_code st oid)) None)\<lparr>fn_module := Some ''DELETEMEPLEASE''\<rparr>)\<rparr>"
  from "2.prems"(2) have r: "rescue_operations st2 rest = Inr st'"
    by (simp add: Let_def st2_def)
  have ok2: "store_ok st2"
    using "2.prems"(1) by (auto simp: store_ok_def st2_def less_Suc_eq)
  have fresh: "\<And>x. op_code st x \<noteq> next_func st"
    using "2.prems"(1) by (metis less_irrefl store_ok_def)
  have step: "store_extends st st2"
    using ok2 fresh
    by (auto simp: store_extends_def st2_def copy_func_def)
  note ih = "2.IH"[OF refl refl refl refl]
  have "store_extends st2 st'"
    using ih ok2 r by (simp add: st2_def)
  with step show ?case by (rule store_extends_trans)
qed simp_all

lemma rescue_migrations_extends:
  "store_ok st \<Longrightarrow> rescue_migrations st ms = Inr (ops, imps, st') \<Longrightarrow> store_extends st st'"
proof (induction ms arbitrary: st ops imps)
  case Nil
  then show ?case by (simp add: store_extends_refl)
next
  case (Cons m ms)
  from Cons.prems(2) obtain st1 ops' imps' where
    a: "rescue_operations st (fst (traverse (all_custom_operations (lm_operations m)))) =
          Inr st1" and
    b: "rescue_migrations st1 ms = Inr (ops', imps', st')"
    by (auto split: sum.splits prod.splits)
  have e1: "store_extends st st1" using rescue_operations_extends[OF Cons.prems(1) a] .
  then have "store_ok st1" by (simp add: store_extends_def)
  from Cons.IH[OF this b] e1 show ?case by (blast intro: store_extends_trans)
qed

lemma add_non_elidables_loop_extends:
  "store_ok st \<Longrightarrow> add_non_elidables_loop st changes replacing = Inr (changes', st')
     \<Longrightarrow> store_extends st st'"
proof (induction st changes replacing arbitrary: changes' rule: add_non_elidables_loop.induct)
  case (1 st app ms rest replacing remaining)
  from "1.prems"(2) obtain ops imps st1 rest' where
    r: "rescue_migrations st replacing = Inr (ops, imps, st1)" and
    ne: "ms \<noteq> []" and
    l: "add_non_elidables_loop st1 rest remaining = Inr (rest', st')"
    by (auto split: sum.splits prod.splits if_splits simp: Let_def)
  have e1: "store_extends st st1" using rescue_migrations_extends[OF "1.prems"(1) r] .
  then have "store_ok st1" by (simp add: store_extends_def)
  from "1.IH"[OF r refl refl ne refl refl this l] e1
  show ?case by (blast intro: store_extends_trans)
qed (simp_all add: store_extends_refl)

lemma squash_extends:
  assumes "store_ok st" and "squash ldr changes migration_name st = Inr (changes', st')"
  shows "store_extends st st'"
  using assms
  by (auto simp: squash_def add_non_elidables_def split: sum.splits
           dest: add_non_elidables_loop_extends)

text \<open>
  Every \<open>RunPython\<close> the generator yields for a replaced migration is re-pointed, and stays
  so through the rest of the run; it is among the operations appended to the last migration
  of the app.
\<close>

lemma rescue_operations_step:
  "rescue_operations st (RunPython oid rc e # rest) = rescue_operations (tag_copy st oid) rest"
  by (simp add: Let_def tag_copy_def)

lemma tag_copy_props:
  assumes "store_ok st"
  shows "store_ok (tag_copy st oid)" "store_extends st (tag_copy st oid)"
        "repointed st (tag_copy st oid) oid"
proof -
  show ok2: "store_ok (tag_copy st oid)"
    using assms by (auto simp: store_ok_def tag_copy_def less_Suc_eq)
  have fresh: "\<And>x. op_code st x \<noteq> next_func st"
    using assms by (metis less_irrefl store_ok_def)
  show "store_extends st (tag_copy st oid)"
    using ok2 fresh by (auto simp: store_extends_def tag_copy_def copy_func_def)
  show "repointed st (tag_copy st oid) oid"
    by (simp add: repointed_def tag_copy_def)
qed

lemma repointed_then_extends:
  assumes "repointed st st1 oid" and "store_ok st1" and "store_extends st1 st2"
  shows "repointed st st2 oid"
proof -
  have lt: "op_code st1 oid < next_func st1" using assms(2) by (simp add: store_ok_def)
  from assms(3) have "op_code st2 oid = op_code st1 oid
       \<or> (next_func st1 \<le> op_code st2 oid
           \<and> fn_module (funcs st2 (op_code st2 oid)) = Some ''DELETEMEPLEASE'')"
    by (simp add: store_extends_def)
  moreover from assms(3) lt have "funcs st2 (op_code st1 oid) = funcs st1 (op_code st1 oid)"
    by (simp add: store_extends_def)
  moreover from assms(1) have "next_func st \<le> op_code st1 oid"
    "fn_module (funcs st1 (op_code st1 oid)) = Some ''DELETEMEPLEASE''"
    by (simp_all add: repointed_def)
  ultimately show ?thesis using lt by (auto simp: repointed_def)
qed

lemma extends_then_repointed:
  assumes "store_extends st st1" and "repointed st1 st2 oid"
  shows "repointed st st2 oid"
  using assms by (auto simp: repointed_def store_extends_def)

lemma rescue_operations_repoints:
  "store_ok st \<Longrightarrow> rescue_operations st ops = Inr st' \<Longrightarrow> RunPython oid rc e \<in> set ops
     \<Longrightarrow> repointed st st' oid"
proof (induction st ops rule: rescue_operations.induct)
  case (1 st)
  then show ?case by simp
next
  case (2 st oid0 rc0 e0 rest)
  let ?st2 = "tag_copy st oid0"
  from "2.prems"(2) have r: "rescue_operations ?st2 rest = Inr st'"
    by (simp only: rescue_operations_step)
  note p = tag_copy_props[OF "2.prems"(1), of oid0]
  show ?case
  proof (cases "RunPython oid rc e \<in> set rest")
    case True
    have "repointed ?st2 st' oid"
      using "2.IH"[OF refl refl refl refl] p(1) r True
      by (simp add: tag_copy_def)
    with p(2) show ?thesis by (rule extends_then_repointed)
  next
    case False
    with "2.prems"(3) have "oid = oid0" by simp
    with p(3) have "repointed st ?st2 oid" by simp
    moreover have "store_extends ?st2 st'" using rescue_operations_extends[OF p(1) r] .
    ultimately show ?thesis using p(1) by (blast intro: repointed_then_extends)
  qed
qed simp_all

lemma rescue_migrations_repoints:
  "store_ok st \<Longrightarrow> rescue_migrations st ms = Inr (ops, imps, st') \<Longrightarrow> lm \<in> set ms
     \<Longrightarrow> RunPython oid rc e \<in> set (fst (traverse (all_custom_operations (lm_operations lm))))
     \<Longrightarrow> repointed st st' oid \<and> RunPython oid rc e \<in> set ops"
proof (induction ms arbitrary: st ops imps)
  case Nil
  then show ?case by simp
next
  case (Cons m ms)
  from Cons.prems(2) obtain st1 ops' imps' where
    a: "rescue_operations st (fst (traverse (all_custom_operations (lm_operations m)))) =
          Inr st1" and
    b: "rescue_migrations st1 ms = Inr (ops', imps', st')" and
    o: "ops = fst (traverse (all_custom_operations (lm_operations m))) @ ops'"
    by (auto split: sum.splits prod.splits)
  have e1: "store_extends st st1" using rescue_operations_extends[OF Cons.prems(1) a] .
  then have ok1: "store_ok st1" by (simp add: store_extends_def)
  have e2: "store_extends st1 st'" using rescue_migrations_extends[OF ok1 b] .
  show ?case
  proof (cases "lm = m")
    case True
    with Cons.prems(4) have
      i: "RunPython oid rc e \<in> set (fst (traverse (all_custom_operations (lm_operations m))))"
      by simp
    from rescue_operations_repoints[OF Cons.prems(1) a i] ok1 e2
    have "repointed st st' oid" by (rule repointed_then_extends)
    with i o show ?thesis by simp
  next
    case False
    with Cons.prems(3) have "lm \<in> set ms" by simp
    from Cons.IH[OF ok1 b this Cons.prems(4)] e1 o
    show ?thesis by (auto intro: extends_then_repointed)
  qed
qed

lemma add_non_elidables_loop_repoints:
  assumes "store_ok st"
      and "add_non_elidables_loop st changes replacing = Inr (changes', st')"
      and "(app, ms') \<in> set changes'"
  shows "\<exists>ms rs. (ms, rs) \<in> set (zip (map snd changes) replacing)
           \<and> map replaces ms' = map replaces ms
           \<and> (\<forall>lm \<in> set rs. \<forall>oid rc e.
                 RunPython oid rc e
                   \<in> set (fst (traverse (all_custom_operations (lm_operations lm))))
                 \<longrightarrow> repointed st st' oid
                     \<and> RunPython oid rc e \<in> set (operations (last ms')))"
  using assms
proof (induction st changes replacing arbitrary: changes'
       rule: add_non_elidables_loop.induct)
  case (1 st a ms rest replacing remaining)
  from "1.prems"(2) obtain ops imps st1 rest' where
    r: "rescue_migrations st replacing = Inr (ops, imps, st1)" and
    ne: "ms \<noteq> []" and
    l: "add_non_elidables_loop st1 rest remaining = Inr (rest', st')" and
    c: "changes' = (a, butlast ms @ [(last ms)\<lparr>operations := operations (last ms) @ ops,
                                        extra_imports := Some imps\<rparr>]) # rest'"
    by (auto split: sum.splits prod.splits if_splits simp: Let_def)
  have e1: "store_extends st st1" using rescue_migrations_extends[OF "1.prems"(1) r] .
  then have ok1: "store_ok st1" by (simp add: store_extends_def)
  have e2: "store_extends st1 st'" using add_non_elidables_loop_extends[OF ok1 l] .
  show ?case
  proof (cases "(app, ms') \<in> set rest'")
    case True
    from "1.IH"[OF r refl refl ne refl refl ok1 l True] obtain ms0 rs0 where
      z: "(ms0, rs0) \<in> set (zip (map snd rest) remaining)" and
      m: "map replaces ms' = map replaces ms0" and
      p: "\<forall>lm \<in> set rs0. \<forall>oid rc e.
                 RunPython oid rc e
                   \<in> set (fst (traverse (all_custom_operations (lm_operations lm))))
                 \<longrightarrow> repointed st1 st' oid
                     \<and> RunPython oid rc e \<in> set (operations (last ms'))"
      by blast
    from p e1 have "\<forall>lm \<in> set rs0. \<forall>oid rc e.
                 RunPython oid rc e
                   \<in> set (fst (traverse (all_custom_operations (lm_operations lm))))
                 \<longrightarrow> repointed st st' oid
                     \<and> RunPython oid rc e \<in> set (operations (last ms'))"
      by (blast intro: extends_then_repointed)
    with z m show ?thesis by auto
  next
    case False
    with "1.prems"(3) c have e: 
      "ms' = butlast ms @ [(last ms)\<lparr>operations := operations (last ms) @ ops,
                                        extra_imports := Some imps\<rparr>]" by auto
    have "map replaces ms' = map replaces (butlast ms @ [last ms])"
      unfolding e by simp
    then have m: "map replaces ms' = map replaces ms" using ne by simp
    have lo: "operations (last ms') = operations (last ms) @ ops" unfolding e by simp
    have "\<forall>lm \<in> set replacing. \<forall>oid rc e.
                 RunPython oid rc e
                   \<in> set (fst (traverse (all_custom_operations (lm_operations lm))))
                 \<longrightarrow> repointed st st' oid
                     \<and> RunPython oid rc e \<in> set (operations (last ms'))"
    proof (intro ballI allI impI)
      fix lm oid rc e
      assume lm: "lm \<in> set replacing" and
        i: "RunPython oid rc e
              \<in> set (fst (traverse (all_custom_operations (lm_operations lm))))"
      from rescue_migrations_repoints[OF "1.prems"(1) r lm i]
      have rp: "repointed st st1 oid" and io: "RunPython oid rc e \<in> set ops" by simp_all
      from rp ok1 e2 have "repointed st st' oid" by (rule repointed_then_extends)
      with io lo show "repointed st st' oid
                     \<and> RunPython oid rc e \<in> set (operations (last ms'))" by simp
    qed
    with m show ?thesis by auto
  qed
qed auto

lemma replacing_migrations_by_app_zip:
  "replacing_migrations_by_app disk changes = Inr replacing
     \<Longrightarrow> (ms, rs) \<in> set (zip (map snd changes) replacing)
     \<Longrightarrow> lookup_all disk (concat (map replaces ms)) = Inr rs"
proof (induction changes arbitrary: replacing)
  case Nil
  then show ?case by simp
next
  case (Cons entry changes)
  obtain a ms0 where en: "entry = (a, ms0)" by (cases entry)
  from Cons.prems(1) en obtain rs0 rest where
    l: "lookup_all disk (concat (map replaces ms0)) = Inr rs0" and
    r: "replacing_migrations_by_app disk changes = Inr rest" and
    e: "replacing = rs0 # rest"
    by (auto split: sum.splits)
  from Cons.prems(2) en e have "(ms, rs) = (ms0, rs0) \<or> (ms, rs) \<in> set (zip (map snd changes) rest)"
    by auto
  then show ?case using l Cons.IH[OF r] by auto
qed

lemma lookup_all_mem:
  "lookup_all disk rs = Inr lms \<Longrightarrow> r \<in> set rs \<Longrightarrow> disk r = Some lm \<Longrightarrow> lm \<in> set lms"
  by (induction rs arbitrary: lms) (auto split: option.splits sum.splits)

lemma squash_repoints:
  assumes ok: "store_ok st"
      and sq: "squash ldr changes migration_name st = Inr (changes', st')"
      and a: "(app, migrations) \<in> set changes'" "migration \<in> set migrations"
             "r \<in> set (replaces migration)" "disk_migrations ldr r = Some lm"
             "RunPython oid rc e
                \<in> set (fst (traverse (all_custom_operations (lm_operations lm))))"
  shows "repointed st st' oid \<and> RunPython oid rc e \<in> set (operations (last migrations))"
proof -
  from sq obtain replaced replacing where
    rm: "replacing_migrations_by_app (disk_migrations ldr) replaced = Inr replacing" and
    l: "add_non_elidables_loop st replaced replacing = Inr (changes', st')"
    by (auto simp: squash_def add_non_elidables_def split: sum.splits)
  from add_non_elidables_loop_repoints[OF ok l a(1)] obtain ms rs where
    z: "(ms, rs) \<in> set (zip (map snd replaced) replacing)" and
    m: "map replaces migrations = map replaces ms" and
    p: "\<forall>lm \<in> set rs. \<forall>oid rc e.
                 RunPython oid rc e
                   \<in> set (fst (traverse (all_custom_operations (lm_operations lm))))
                 \<longrightarrow> repointed st st' oid
                     \<and> RunPython oid rc e \<in> set (operations (last migrations))"
    by blast
  from a(2,3) have "r \<in> set (concat (map replaces migrations))" by auto
  with m have "r \<in> set (concat (map replaces ms))" by simp
  with replacing_migrations_by_app_zip[OF rm z] a(4) have "lm \<in> set rs"
    by (blast intro: lookup_all_mem)
  with p a(5) show ?thesis by blast
qed

text \<open>
  C4, as the specification states it: after squash the operations of the replaced migrations have
  the payload, and the payload the module attribution, that they had before. The operation
  object appended to the new migration is the one of the replaced migration, and the copy
  is assigned to its \<^verbatim>\<open>code\<close>: after the run the \<open>RunPython\<close> of \<^verbatim>\<open>0002_add_field\<close>
  holds another function object than before, attributed to \<^verbatim>\<open>DELETEMEPLEASE\<close>.
\<close>

theorem squash_retags_replaced_operation:
  "map_option lm_operations (disk_migrations ex_loader (''app'', ''0002_add_field'')) =
     Some [OtherOp ''AddField'' False, RunPython 5 None False]
   \<and> code_attribution ex_store 5 = Some ''app.migrations.0002_add_field''
   \<and> \<not> isl (squash ex_loader [(''app'', [ex_new])] None ex_store)
   \<and> code_attribution (snd (projr (squash ex_loader [(''app'', [ex_new])] None ex_store))) 5 =
       Some ''DELETEMEPLEASE''
   \<and> op_code (snd (projr (squash ex_loader [(''app'', [ex_new])] None ex_store))) 5 \<noteq>
       op_code ex_store 5"
  by code_simp

text \<open>
  C4, amended. The copy is what keeps the function objects intact: every function object
  that existed before squash, and so the original payload of every operation, has after
  squash the attributes it had, the module attribution among them. A \<^verbatim>\<open>code\<close> attribute
  is either what it was, or it holds a function object made during the run that carries
  the marker; either way it holds the code object it held before. The operations themselves
  do not stay as they were: every \<open>RunPython\<close> that the generator yields for a migration
  named in the \<open>replaces\<close> of a returned migration has after squash another
  \<^verbatim>\<open>code\<close> than before, a function object made during the run that carries the
  marker, and this operation object is among the operations of the last migration returned
  for the app.
\<close>

theorem squash_keeps_function_objects:
  assumes "store_ok st"
      and "squash ldr changes migration_name st = Inr (changes', st')"
  shows "(\<forall>a < next_func st. funcs st' a = funcs st a)
       \<and> (\<forall>oid. funcs st' (op_code st oid) = funcs st (op_code st oid))
       \<and> (\<forall>oid. op_code st' oid = op_code st oid
                 \<or> (next_func st \<le> op_code st' oid
                      \<and> code_attribution st' oid = Some ''DELETEMEPLEASE''))
       \<and> (\<forall>oid. fn_code (funcs st' (op_code st' oid)) = fn_code (funcs st (op_code st oid)))
       \<and> (\<forall>app migrations migration r lm oid rc e.
             (app, migrations) \<in> set changes' \<and> migration \<in> set migrations
             \<and> r \<in> set (replaces migration) \<and> disk_migrations ldr r = Some lm
             \<and> RunPython oid rc e
                  \<in> set (fst (traverse (all_custom_operations (lm_operations lm))))
             \<longrightarrow> op_code st' oid \<noteq> op_code st oid
                 \<and> next_func st \<le> op_code st' oid
                 \<and> code_attribution st' oid = Some ''DELETEMEPLEASE''
                 \<and> RunPython oid rc e \<in> set (operations (last migrations)))"
proof -
  from squash_extends[OF assms] have e: "store_extends st st'" .
  have lt: "\<And>oid. op_code st oid < next_func st"
    using assms(1) by (simp add: store_ok_def)
  have frame: "(\<forall>a < next_func st. funcs st' a = funcs st a)
       \<and> (\<forall>oid. funcs st' (op_code st oid) = funcs st (op_code st oid))
       \<and> (\<forall>oid. op_code st' oid = op_code st oid
                 \<or> (next_func st \<le> op_code st' oid
                      \<and> code_attribution st' oid = Some ''DELETEMEPLEASE''))
       \<and> (\<forall>oid. fn_code (funcs st' (op_code st' oid)) = fn_code (funcs st (op_code st oid)))"
    using e lt by (simp add: store_extends_def code_attribution_def)
  have "\<And>app migrations migration r lm oid rc e.
          (app, migrations) \<in> set changes' \<Longrightarrow> migration \<in> set migrations
          \<Longrightarrow> r \<in> set (replaces migration) \<Longrightarrow> disk_migrations ldr r = Some lm
          \<Longrightarrow> RunPython oid rc e
                \<in> set (fst (traverse (all_custom_operations (lm_operations lm))))
          \<Longrightarrow> op_code st' oid \<noteq> op_code st oid
              \<and> next_func st \<le> op_code st' oid
              \<and> code_attribution st' oid = Some ''DELETEMEPLEASE''
              \<and> RunPython oid rc e \<in> set (operations (last migrations))"
  proof -
    fix app migrations migration r lm oid rc e
    assume a: "(app, migrations) \<in> set changes'" "migration \<in> set migrations"
      "r \<in> set (replaces migration)" "disk_migrations ldr r = Some lm"
      "RunPython oid rc e
         \<in> set (fst (traverse (all_custom_operations (lm_operations lm))))"
    from squash_repoints[OF assms a]
    have rp: "repointed st st' oid" and
      io: "RunPython oid rc e \<in> set (operations (last migrations))" by simp_all
    from rp lt[of oid] have "op_code st' oid \<noteq> op_code st oid"
      by (auto simp: repointed_def)
    with rp io show "op_code st' oid \<noteq> op_code st oid
              \<and> next_func st \<le> op_code st' oid
              \<and> code_attribution st' oid = Some ''DELETEMEPLEASE''
              \<and> RunPython oid rc e \<in> set (operations (last migrations))"
      by (simp add: repointed_def code_attribution_def)
  qed
  with frame show ?thesis by blast
qed

theorem squash_keeps_function_objects_witness:
  "store_ok ex_store
   \<and> \<not> isl (squash ex_loader [(''app'', [ex_new])] None ex_store)
   \<and> funcs (snd (projr (squash ex_loader [(''app'', [ex_new])] None ex_store)))
         (op_code ex_store 5) = ex_func
   \<and> fn_code (funcs (snd (projr (squash ex_loader [(''app'', [ex_new])] None ex_store)))
         (op_code (snd (projr (squash ex_loader [(''app'', [ex_new])] None ex_store))) 5)) =
       fn_code ex_func
   \<and> op_code (snd (projr (squash ex_loader [(''app'', [ex_new])] None ex_store))) 5 \<noteq>
       op_code ex_store 5
   \<and> code_attribution (snd (projr (squash ex_loader [(''app'', [ex_new])] None ex_store))) 5 =
       Some ''DELETEMEPLEASE''
   \<and> RunPython 5 None False \<in> set (operations (last (snd (hd (fst (projr
         (squash ex_loader [(''app'', [ex_new])] None ex_store)))))))"
proof -
  let ?r = "squash ex_loader [(''app'', [ex_new])] None ex_store"
  let ?lm = "\<lparr> lm_operations = [OtherOp ''AddField'' False, RunPython 5 None False],
              lm_module = Some [ImportFrom (Some ''django.db'') [''migrations'']] \<rparr>"
  have ok: "store_ok ex_store" by (simp add: store_ok_def ex_store_def)
  have run: "\<not> isl ?r" by code_simp
  have apps: "map fst (fst (projr ?r)) = [''app'']" by code_simp
  have reps: "map (map replaces) (map snd (fst (projr ?r))) =
     [[[(''app'', ''0001_initial''), (''app'', ''0002_add_field'')]]]" by code_simp
  from run obtain c s where r: "?r = Inr (c, s)" by (cases ?r) auto
  with apps reps obtain ms where c: "c = [(''app'', ms)]" by auto
  with r reps obtain m where ms: "ms = [m]" by auto
  with r reps c have m: "replaces m = [(''app'', ''0001_initial''), (''app'', ''0002_add_field'')]"
    by auto
  have d: "disk_migrations ex_loader (''app'', ''0002_add_field'') = Some ?lm"
    by (simp add: ex_loader_def)
  have y: "RunPython 5 None False
             \<in> set (fst (traverse (all_custom_operations (lm_operations ?lm))))"
    by simp
  have h: "(''app'', ms) \<in> set c \<and> m \<in> set ms
           \<and> (''app'', ''0002_add_field'') \<in> set (replaces m)
           \<and> disk_migrations ex_loader (''app'', ''0002_add_field'') = Some ?lm
           \<and> RunPython 5 None False
                \<in> set (fst (traverse (all_custom_operations (lm_operations ?lm))))"
    using c ms m d y by simp
  from squash_keeps_function_objects[OF ok r]
  have f: "funcs s (op_code ex_store 5) = funcs ex_store (op_code ex_store 5)"
       "fn_code (funcs s (op_code s 5)) = fn_code (funcs ex_store (op_code ex_store 5))"
    and p: "\<forall>app migrations migration r lm oid rc e.
             (app, migrations) \<in> set c \<and> migration \<in> set migrations
             \<and> r \<in> set (replaces migration) \<and> disk_migrations ex_loader r = Some lm
             \<and> RunPython oid rc e
                  \<in> set (fst (traverse (all_custom_operations (lm_operations lm))))
             \<longrightarrow> op_code s oid \<noteq> op_code ex_store oid
                 \<and> next_func ex_store \<le> op_code s oid
                 \<and> code_attribution s oid = Some ''DELETEMEPLEASE''
                 \<and> RunPython oid rc e \<in> set (operations (last migrations))"
    by blast+
  from p h have "op_code s 5 \<noteq> op_code ex_store 5
                 \<and> code_attribution s 5 = Some ''DELETEMEPLEASE''
                 \<and> RunPython 5 None False \<in> set (operations (last ms))"
    by blast
  with f ok run r c show ?thesis by (simp add: ex_store_def)
qed

section \<open>The writer\<close>

lemma set_add_props:
  "set (set_add x s) = insert x (set s)" "distinct s \<Longrightarrow> distinct (set_add x s)"
  by (auto simp: set_add_def)

lemma set_update_distinct: "distinct s \<Longrightarrow> distinct (set_update s xs)"
  unfolding set_update_def by (induction xs arbitrary: s) (simp_all add: set_add_props)

lemma operations_loop_distinct:
  "distinct (fst acc) \<Longrightarrow> distinct (fst (operations_loop env st ops acc))"
  by (induction env st ops acc rule: operations_loop.induct)
     (auto simp: set_update_distinct split: prod.splits)

lemma dependencies_loop_distinct:
  "distinct (fst acc) \<Longrightarrow> distinct (fst (dependencies_loop env deps acc))"
  by (induction env deps acc rule: dependencies_loop.induct)
     (auto simp: set_add_props)

text \<open>
  The loops over the operations and the dependencies, and the sources of the functions, do
  not read the version, the clock or the order of sets.
\<close>

lemma operations_loop_env:
  "operations_loop (env\<lparr>get_version := v, now := t, set_order := it\<rparr>) st ops acc =
   operations_loop env st ops acc"
  by (induction env st ops acc rule: operations_loop.induct) (auto split: prod.splits)

lemma dependencies_loop_env:
  "dependencies_loop (env\<lparr>get_version := v, now := t, set_order := it\<rparr>) deps acc =
   dependencies_loop env deps acc"
  by (induction env deps acc rule: dependencies_loop.induct) auto

lemma function_sources_env:
  "function_sources (env\<lparr>get_version := v, now := t, set_order := it\<rparr>) st ops =
   function_sources env st ops"
  by (induction env st ops rule: function_sources.induct) auto

lemma split_acc_nonempty: "split_acc sep acc s \<noteq> []"
  by (induction sep acc s rule: split_acc.induct) auto

text \<open>A line the pattern matches starts with \<^verbatim>\<open>import\<close>, so the split has a second piece.\<close>

lemma split_on_import:
  assumes "is_migration_import line"
  shows "\<exists>path others. split_on ''import'' line = [] # path # others"
proof -
  from assms have "take (length ''import '') line = ''import ''"
    unfolding is_migration_import_def startswith_def by blast
  then obtain r where l: "line = ''import '' @ r"
    by (metis append_take_drop_id)
  have "split_on ''import'' line = [] # split_acc ''import'' [] (CHR '' '' # r)"
    unfolding l by (simp add: split_on_def startswith_def)
  moreover obtain p ps where "split_acc ''import'' [] (CHR '' '' # r) = p # ps"
    by (metis neq_Nil_conv split_acc_nonempty)
  ultimately show ?thesis by auto
qed

text \<open>
  The third loop on lines that are in the set, each once: it raises nothing, takes the
  matching lines out of the set and enters their paths.
\<close>

lemma porting_loop_result:
  assumes "distinct lines" and "set lines \<subseteq> set imps"
  shows "porting_loop lines (imps, paths, needs) =
     Inr (filter (\<lambda>l. \<not> (is_migration_import l \<and> l \<in> set lines)) imps,
          fold (\<lambda>l. set_add (import_path l)) (filter is_migration_import lines) paths,
          needs \<or> (\<exists>l \<in> set lines. is_migration_import l))"
  using assms
proof (induction lines arbitrary: imps paths needs)
  case Nil
  then show ?case by simp
next
  case (Cons line rest)
  show ?case
  proof (cases "is_migration_import line")
    case False
    have "filter (\<lambda>l. \<not> (is_migration_import l \<and> l \<in> set (line # rest))) imps =
          filter (\<lambda>l. \<not> (is_migration_import l \<and> l \<in> set rest)) imps"
      using False by (intro filter_cong) auto
    with False Cons show ?thesis by auto
  next
    case True
    from split_on_import[OF True] obtain path others where
      sp: "split_on ''import'' line = [] # path # others" by blast
    then have ip: "import_path line = strip path" by (simp add: import_path_def)
    have rm: "set_remove line imps = Inr (removeAll line imps)"
      using Cons.prems by (simp add: set_remove_def)
    have sub: "set rest \<subseteq> set (removeAll line imps)" "distinct rest"
      using Cons.prems by auto
    have f: "filter (\<lambda>l. \<not> (is_migration_import l \<and> l \<in> set rest)) (removeAll line imps) =
          filter (\<lambda>l. \<not> (is_migration_import l \<and> l \<in> set (line # rest))) imps"
      using True by (induction imps) auto
    show ?thesis
      using True sp rm ip f
        Cons.IH[OF sub(2) sub(1), of "set_add (strip path) paths" True]
      by simp
  qed
qed

text \<open>A stable sort of two arrangements of the same lines agrees when no two keys agree.\<close>

lemma sort_key_perm:
  assumes "mset xs = mset ys" and "distinct (map f xs)"
  shows "sort_key f xs = sort_key f ys"
proof -
  let ?A = "sort_key f xs" and ?B = "sort_key f ys"
  have m: "mset ?A = mset ?B" using assms(1) by simp
  then have s: "set ?A = set ?B" by (metis set_mset_mset)
  have "mset (map f ?A) = mset (map f xs)" by simp
  then have dA: "distinct (map f ?A)" using assms(2) by (metis mset_eq_imp_distinct_iff)
  have "mset (map f ?B) = mset (map f ?A)" using m by (metis mset_map)
  then have dB: "distinct (map f ?B)" using dA by (metis mset_eq_imp_distinct_iff)
  have "set (map f ?A) = set (map f ?B)" using s by simp
  then have e: "map f ?A = map f ?B"
    using dA dB by (intro sorted_distinct_set_unique) simp_all
  have "inj_on f (set ?A \<union> set ?B)" using dA s by (simp add: distinct_map)
  with e show ?thesis by (simp add: inj_on_map_eq_map)
qed

lemma fold_set_add_props:
  "set (fold (\<lambda>l. set_add (g l)) ls acc) = g ` set ls \<union> set acc"
  "distinct acc \<Longrightarrow> distinct (fold (\<lambda>l. set_add (g l)) ls acc)"
  by (induction ls arbitrary: acc) (auto simp: set_add_props)

lemma sort_distinct_set:
  fixes xs ys :: "string list"
  assumes "distinct xs" "distinct ys" "set xs = set ys"
  shows "sort xs = sort ys"
  using assms by (intro sorted_distinct_set_unique) simp_all

text \<open>
  Under two orders of iteration the sets are built alike: the same lines for the block,
  the same flag, and the same paths up to their order.
\<close>

lemma import_lines_order:
  assumes p1: "\<And>s. mset (set_order env s) = mset s"
      and p2: "\<And>s. mset (it s) = mset s"
  shows "\<exists>lines paths paths' needs.
           import_lines env st migration = Inr (lines, paths, needs)
         \<and> import_lines (env\<lparr>get_version := v, now := t, set_order := it\<rparr>) st migration
             = Inr (lines, paths', needs)
         \<and> sort paths = sort paths' \<and> (paths = [] \<longleftrightarrow> paths' = [])"
proof -
  obtain imps1 strs1 where
    o: "operations_loop env st (operations migration) ([], []) = (imps1, strs1)"
    by (cases "operations_loop env st (operations migration) ([], [])") auto
  obtain imps2 strs2 where
    d: "dependencies_loop env (dependencies migration) (imps1, []) = (imps2, strs2)"
    by (cases "dependencies_loop env (dependencies migration) (imps1, [])") auto
  have "distinct (fst (operations_loop env st (operations migration) ([], [])))"
    by (rule operations_loop_distinct) simp
  with o have "distinct imps1" by simp
  then have "distinct (fst (dependencies_loop env (dependencies migration) (imps1, [])))"
    by (intro dependencies_loop_distinct) simp
  with d have d2: "distinct imps2" by simp
  let ?L = "set_order env imps2" and ?L' = "it imps2"
  have L: "distinct ?L" "set ?L = set imps2"
    using p1[of imps2] d2 by (metis mset_eq_imp_distinct_iff, metis set_mset_mset)
  have L': "distinct ?L'" "set ?L' = set imps2"
    using p2[of imps2] d2 by (metis mset_eq_imp_distinct_iff, metis set_mset_mset)
  let ?P = "fold (\<lambda>l. set_add (import_path l)) (filter is_migration_import ?L) []"
  let ?P' = "fold (\<lambda>l. set_add (import_path l)) (filter is_migration_import ?L') []"
  have r: "porting_loop ?L (imps2, [], False) =
      Inr (filter (\<lambda>l. \<not> (is_migration_import l \<and> l \<in> set imps2)) imps2, ?P,
           \<exists>l \<in> set imps2. is_migration_import l)"
    using porting_loop_result[OF L(1), of imps2 "[]" False] L(2) by simp
  have r': "porting_loop ?L' (imps2, [], False) =
      Inr (filter (\<lambda>l. \<not> (is_migration_import l \<and> l \<in> set imps2)) imps2, ?P',
           \<exists>l \<in> set imps2. is_migration_import l)"
    using porting_loop_result[OF L'(1), of imps2 "[]" False] L'(2) by simp
  have sP: "set ?P = set ?P'" using L(2) L'(2) by (simp add: fold_set_add_props)
  have dP: "distinct ?P" "distinct ?P'" by (simp_all add: fold_set_add_props)
  have "sort ?P = sort ?P'" using dP sP by (rule sort_distinct_set)
  moreover have "?P = [] \<longleftrightarrow> ?P' = []" using sP by (metis set_empty)
  ultimately show ?thesis
    using o d r r'
    by (simp add: import_lines_def operations_loop_env dependencies_loop_env)
qed

text \<open>
  C7. The specification says: an import line of the shape \<^verbatim>\<open>import <path>.<digits...>\<close> sets
  \<open>needs_manual_porting\<close>, leaves the import block, and its module path stands in the
  comment block instead. The path for the comment is cut out with
  \<^verbatim>\<open>line.split("import")[1]\<close>, which ends at the next \<^verbatim>\<open>import\<close> in the line. The
  squashed migration below refers to \<^verbatim>\<open>app.migrations.0007_import_data.undo\<close>; the
  line \<^verbatim>\<open>import app.migrations.0007_import_data\<close> is matched, the flag is set and the
  line leaves the block, but the comment lists \<^verbatim>\<open>app.migrations.0007_\<close>, which is not
  the module path.
\<close>

theorem get_kwargs_truncates_import_path:
  "fst (ex_serialize ex_ported_store (RunPython 5 (Some 1) False)) =
     ''        migrations.RunPython(code=DELETEMEPLEASE.populate_default, '' @
     ''reverse_code=app.migrations.0007_import_data.undo),''
   \<and> snd (ex_serialize ex_ported_store (RunPython 5 (Some 1) False)) =
     [''import DELETEMEPLEASE'', ''import app.migrations.0007_import_data'']
   \<and> is_migration_import ''import app.migrations.0007_import_data''
   \<and> import_path ''import app.migrations.0007_import_data'' = ''app.migrations.0007_''
   \<and> \<not> isl (get_kwargs ex_env ex_ported_store ex_ported False)
   \<and> snd (projr (get_kwargs ex_env ex_ported_store ex_ported False))
   \<and> imports_str (fst (projr (get_kwargs ex_env ex_ported_store ex_ported False))) =
       ''import DELETEMEPLEASE'' @ [CHR 0x0A] @
       ''from django.conf import settings'' @ [CHR 0x0A] @
       ''from django.db import migrations, models'' @ [CHR 0x0A] @
       manual_porting_comment [''app.migrations.0007_'']"
  by code_simp

text \<open>
  C8, as the specification states it: with \<open>include_header\<close> false two renders of the same
  migration give the same text, with no reliance on unordered iteration. The import lines
  are a set, and \<^verbatim>\<open>sorted\<close> orders them by their second word only; two lines with the
  same second word stay in the order in which the set is iterated. Here the operation
  needs \<^verbatim>\<open>import django.utils.timezone\<close> and
  \<^verbatim>\<open>from django.utils.timezone import utc\<close>: iterating the set one way or the other
  gives two texts.
\<close>

theorem as_string_depends_on_set_order:
  "as_string (ex_env\<lparr>set_order := rev\<rparr>) ex_store ex_new False \<noteq>
   as_string ex_env ex_store ex_new False"
  by code_simp

text \<open>
  C8, amended. Let a set be iterated in any order, each element once. With
  \<open>include_header\<close> false, the text does not depend on the version or on the clock, and it
  does not depend on the order in which sets are iterated provided no two import lines of
  the block have the same second word.
\<close>

theorem as_string_deterministic:
  assumes p1: "\<And>s. mset (set_order env s) = mset s"
      and p2: "\<And>s. mset (it s) = mset s"
      and keys: "case import_lines env st migration of
                   Inl e \<Rightarrow> True
                 | Inr (lines, paths, needs) \<Rightarrow> distinct (map import_key lines)"
  shows "as_string (env\<lparr>get_version := v, now := t, set_order := it\<rparr>) st migration False =
         as_string env st migration False"
proof -
  let ?env' = "env\<lparr>get_version := v, now := t, set_order := it\<rparr>"
  from import_lines_order[OF p1 p2, where st = st and migration = migration
                          and v = v and t = t]
  obtain lines paths paths' needs where
    a: "import_lines env st migration = Inr (lines, paths, needs)" and
    b: "import_lines ?env' st migration = Inr (lines, paths', needs)" and
    c: "sort paths = sort paths'" "paths = [] \<longleftrightarrow> paths' = []"
    by blast
  from keys a have k: "distinct (map import_key lines)" by simp
  have m: "mset (it lines) = mset (set_order env lines)" using p1 p2 by simp
  have "list_all (\<lambda>i. 2 \<le> length (split_ws i)) (it lines) =
        list_all (\<lambda>i. 2 \<le> length (split_ws i)) (set_order env lines)"
    using m by (metis list_all_iff set_mset_mset)
  moreover have "sort_key import_key (it lines) = sort_key import_key (set_order env lines)"
  proof (rule sort_key_perm[OF m])
    have "mset (map import_key (it lines)) = mset (map import_key lines)"
      using p2 by (metis mset_map)
    with k show "distinct (map import_key (it lines))" by (metis mset_eq_imp_distinct_iff)
  qed
  ultimately have s: "sorted_imports (it lines) = sorted_imports (set_order env lines)"
    by (simp add: sorted_imports_def)
  have g: "get_kwargs ?env' st migration False = get_kwargs env st migration False"
    using a b c s
    by (simp add: get_kwargs_def operations_loop_env dependencies_loop_env
                  manual_porting_comment_def Let_def split: sum.splits)
  have "migration_writer_get_kwargs ?env' st migration False =
        migration_writer_get_kwargs env st migration False"
    by (simp add: migration_writer_get_kwargs_def g function_sources_env Let_def
             split: sum.splits prod.splits)
  then show ?thesis
    by (simp add: as_string_def)
qed

theorem as_string_deterministic_witness:
  "map import_key (fst (projr (import_lines ex_env ex_ported_store ex_ported))) =
     [''DELETEMEPLEASE'', ''django.conf'', ''django.db'']
   \<and> \<not> isl (as_string ex_env ex_ported_store ex_ported False)
   \<and> as_string (ex_env\<lparr>get_version := ''4.2'', now := ''2024-05-01 12:00'', set_order := rev\<rparr>)
        ex_ported_store ex_ported False =
      as_string ex_env ex_ported_store ex_ported False"
proof -
  have p1: "\<And>s. mset (set_order ex_env s) = mset s" by (simp add: ex_env_def)
  have p2: "\<And>s::string list. mset (rev s) = mset s" by simp
  have keys: "case import_lines ex_env ex_ported_store ex_ported of
                Inl e \<Rightarrow> True
              | Inr (lines, paths, needs) \<Rightarrow> distinct (map import_key lines)"
    by code_simp
  have l: "map import_key (fst (projr (import_lines ex_env ex_ported_store ex_ported))) =
     [''DELETEMEPLEASE'', ''django.conf'', ''django.db'']"
    by code_simp
  have r: "\<not> isl (as_string ex_env ex_ported_store ex_ported False)" by code_simp
  from as_string_deterministic[of ex_env rev ex_ported_store ex_ported, OF p1 p2 keys] l r
  show ?thesis by simp
qed

text \<open>
  No part of the writer reads \<^verbatim>\<open>extra_imports\<close>: not the sets, not the dictionaries.
\<close>

lemma import_lines_extra_imports:
  "import_lines env st (migration\<lparr>extra_imports := x\<rparr>) = import_lines env st migration"
  by (simp add: import_lines_def)

lemma get_kwargs_extra_imports:
  "get_kwargs env st (migration\<lparr>extra_imports := x\<rparr>) include_header =
   get_kwargs env st migration include_header"
  by (simp add: get_kwargs_def import_lines_extra_imports Let_def
           split: sum.splits prod.splits)

lemma migration_writer_get_kwargs_extra_imports:
  "migration_writer_get_kwargs env st (migration\<lparr>extra_imports := x\<rparr>) include_header =
   migration_writer_get_kwargs env st migration include_header"
  by (simp add: migration_writer_get_kwargs_def get_kwargs_extra_imports Let_def
           split: sum.splits prod.splits)

text \<open>
  C10. \<^verbatim>\<open>MigrationWriter.as_string\<close> gives the same text for two migrations that
  differ in nothing but their \<^verbatim>\<open>extra_imports\<close>, for both values of
  \<open>include_header\<close>: the writer does not read \<^verbatim>\<open>extra_imports\<close>, and the imports
  the rescue gathered there do not reach the text.
\<close>

theorem as_string_ignores_extra_imports:
  "as_string env st (migration\<lparr>extra_imports := x\<rparr>) include_header =
   as_string env st migration include_header"
  by (simp add: as_string_def migration_writer_get_kwargs_extra_imports)

theorem as_string_ignores_extra_imports_witness:
  "as_string ex_env ex_ported_store
     (ex_ported\<lparr>extra_imports := Some [''import os'', ''from app.models import Thing'']\<rparr>) True =
   as_string ex_env ex_ported_store ex_ported True"
  by (rule as_string_ignores_extra_imports)

section \<open>The command\<close>

text \<open>
  C9. When the labels are known and the migrations squash returns replace nothing, all
  their \<open>replaces\<close> together being empty, \<^verbatim>\<open>handle\<close> ends with the
  \<^verbatim>\<open>CommandError\<close> \<^verbatim>\<open>There are no migrations to squash.\<close> and the files are what they
  were: nothing was written.
\<close>

theorem handle_nothing_to_squash:
  assumes "set app_labels \<subseteq> app_configs env"
      and "squash (migration_loader env)
             (autodetector_changes env
                (if app_labels = [] then None else Some (set app_labels)))
             (Some []) st = Inr (changes, st')"
      and "replacing_migrations changes = 0"
  shows "handle env app_labels st fs =
           (Some (CommandError ''There are no migrations to squash.''), fs)"
proof -
  from assms(1) have "\<not> (\<exists>l \<in> set app_labels. l \<notin> app_configs env)" by auto
  with assms(2,3) show ?thesis by (simp add: handle_def)
qed

theorem handle_nothing_to_squash_witness:
  "handle ex_command [''app''] ex_store Map.empty =
     (Some (CommandError ''There are no migrations to squash.''), Map.empty)"
proof -
  let ?r = "squash ex_empty_loader [(''app'', [ex_new])] (Some []) ex_store"
  have run: "\<not> isl ?r" by code_simp
  have zero: "replacing_migrations (fst (projr ?r)) = 0" by code_simp
  from run obtain c s where r: "?r = Inr (c, s)" by (cases ?r) auto
  have labels: "set [''app''] \<subseteq> app_configs ex_command" by (simp add: ex_command_def)
  have sq: "squash (migration_loader ex_command)
             (autodetector_changes ex_command
                (if [''app''] = [] then None else Some (set [''app''])))
             (Some []) ex_store = Inr (c, s)"
    using r by (simp add: ex_command_def)
  from zero r have "replacing_migrations c = 0" by simp
  from handle_nothing_to_squash[OF labels sq this] show ?thesis .
qed

end
